theory Spec2Isabelle
  imports Main
begin

section \<open>Command Builder (\<open>buildCommands\<close>, main.cpp lines 54-59 and 126-157)\<close>

text \<open>
  \<open>struct Command\<close>: the argument vector, the two redirection paths and the append flag.
  A C++ \<open>std::string\<close> that was never assigned is the empty string, and the code tests
  \<open>infile.empty()\<close> / \<open>outfile.empty()\<close> to see whether a redirection is present, so the
  paths are plain strings here as well. The field \<open>append\<close> is called \<open>append_flag\<close>
  because \<open>append\<close> is the list concatenation of HOL.
\<close>

record Command =
  argv :: "string list"
  infile :: string
  outfile :: string
  append_flag :: bool

text \<open>\<open>cmds.emplace_back()\<close> appends a default-constructed \<open>Command\<close>.\<close>

definition empty_Command :: Command where
  "empty_Command = \<lparr>argv = [], infile = [], outfile = [], append_flag = False\<rparr>"

text \<open>
  An assignment through \<open>cmds.back()\<close>. The vector is never empty inside the loop (it
  starts with one element and only grows), so the reading of \<open>back()\<close> on an empty
  vector, undefined in C++, is not reached; the model leaves an empty list unchanged.
\<close>

definition upd_back :: "(Command \<Rightarrow> Command) \<Rightarrow> Command list \<Rightarrow> Command list" where
  "upd_back f cmds = (if cmds = [] then [] else butlast cmds @ [f (last cmds)])"

text \<open>
  The \<open>for\<close> loop of lines 129-151 on the tokens that are still to be read. A
  redirection operator followed by a token consumes that token (\<open>tokens[++i]\<close>); with no
  token after it the operator is skipped and the loop ends.
\<close>

fun buildCommands_loop :: "string list \<Rightarrow> Command list \<Rightarrow> Command list" where
  "buildCommands_loop [] cmds = cmds"
| "buildCommands_loop (tk # rest) cmds =
    (if tk = ''|'' then buildCommands_loop rest (cmds @ [empty_Command])
     else if tk = ''<'' then
       (case rest of
          [] \<Rightarrow> cmds
        | f # rest' \<Rightarrow> buildCommands_loop rest' (upd_back (\<lambda>c. c\<lparr>infile := f\<rparr>) cmds))
     else if tk = ''>'' then
       (case rest of
          [] \<Rightarrow> cmds
        | f # rest' \<Rightarrow>
            buildCommands_loop rest'
              (upd_back (\<lambda>c. c\<lparr>outfile := f, append_flag := False\<rparr>) cmds))
     else if tk = ''>>'' then
       (case rest of
          [] \<Rightarrow> cmds
        | f # rest' \<Rightarrow>
            buildCommands_loop rest'
              (upd_back (\<lambda>c. c\<lparr>outfile := f, append_flag := True\<rparr>) cmds))
     else buildCommands_loop rest (upd_back (\<lambda>c. c\<lparr>argv := argv c @ [tk]\<rparr>) cmds))"

text \<open>The test of line 153 on the last command.\<close>

definition entirely_empty :: "Command \<Rightarrow> bool" where
  "entirely_empty c \<longleftrightarrow> argv c = [] \<and> infile c = [] \<and> outfile c = []"

definition buildCommands :: "string list \<Rightarrow> Command list" where
  "buildCommands tokens =
    (let cmds = buildCommands_loop tokens [empty_Command]
     in if cmds \<noteq> [] \<and> entirely_empty (last cmds) then butlast cmds else cmds)"

text \<open>
  Token positions. Whether a token is an operator depends on where the loop reads it: a
  token that follows a redirection operator is a path, whatever it looks like.
  \<open>closed ts\<close> says that the loop reads \<open>ts\<close> to its end without an operator left
  waiting for its path, so that what follows \<open>ts\<close> is read from an operator position.
\<close>

definition is_redirect :: "string \<Rightarrow> bool" where
  "is_redirect tk \<longleftrightarrow> tk = ''<'' \<or> tk = ''>'' \<or> tk = ''>>''"

fun closed :: "string list \<Rightarrow> bool" where
  "closed [] = True"
| "closed (tk # rest) =
    (if is_redirect tk then (case rest of [] \<Rightarrow> False | f # rest' \<Rightarrow> closed rest')
     else closed rest)"

text \<open>
  \<open>no_later_in ts\<close>: read from an operator position, \<open>ts\<close> stays inside the current
  stage (no pipe token in operator position) and holds no input redirection that has a
  path. \<open>no_later_out\<close> is the same for \<open>>\<close> and \<open>>>\<close>.
\<close>

fun no_later_in :: "string list \<Rightarrow> bool" where
  "no_later_in [] = True"
| "no_later_in (tk # rest) =
    (if tk = ''|'' then False
     else if tk = ''<'' then rest = []
     else if tk = ''>'' \<or> tk = ''>>'' then
       (case rest of [] \<Rightarrow> True | f # rest' \<Rightarrow> no_later_in rest')
     else no_later_in rest)"

fun no_later_out :: "string list \<Rightarrow> bool" where
  "no_later_out [] = True"
| "no_later_out (tk # rest) =
    (if tk = ''|'' then False
     else if tk = ''>'' \<or> tk = ''>>'' then rest = []
     else if tk = ''<'' then
       (case rest of [] \<Rightarrow> True | f # rest' \<Rightarrow> no_later_out rest')
     else no_later_out rest)"


text \<open>
  The position of a stage in the result: the stage that is open after the tokens \<open>pre\<close>
  is the last one the loop has created so far.
\<close>

definition stage_index :: "string list \<Rightarrow> nat" where
  "stage_index pre = length (buildCommands_loop pre [empty_Command]) - 1"


section \<open>Job Table (main.cpp lines 45-52 and 61-92)\<close>

datatype JobStatus = RUNNING | STOPPED | DONE

text \<open>
  \<open>struct Job\<close>. \<open>jid\<close> is a C \<open>int\<close> and \<open>pgid\<close> a \<open>pid_t\<close>; both are integers
  here. The counter \<open>next_jid\<close> only grows by one per registered job, and signed
  overflow is undefined in C++, so the model speaks of runs in which fewer than \<open>2^31\<close>
  jobs are registered.
\<close>

record Job =
  jid :: int
  pgid :: int
  cmd :: string
  status :: JobStatus

text \<open>
  The lookups return a pointer into the vector \<open>jobs\<close> or \<open>nullptr\<close>; the model returns
  the position of the first matching entry or \<open>None\<close>.
\<close>

fun find_first :: "('a \<Rightarrow> bool) \<Rightarrow> 'a list \<Rightarrow> nat option" where
  "find_first P [] = None"
| "find_first P (x # xs) = (if P x then Some 0 else map_option Suc (find_first P xs))"

definition find_job_by_jid :: "int \<Rightarrow> Job list \<Rightarrow> nat option" where
  "find_job_by_jid n js = find_first (\<lambda>j. jid j = n) js"

definition find_job_by_pgid :: "int \<Rightarrow> Job list \<Rightarrow> nat option" where
  "find_job_by_pgid g js = find_first (\<lambda>j. pgid j = g) js"

text \<open>
  \<open>find_job_by_pid(pid)\<close> asks the system for the group of \<open>pid\<close>. The first argument
  here is what that call \<open>getpgid(pid)\<close> returned: the group, or a negative number when
  the call failed.
\<close>

definition find_job_by_pid :: "int \<Rightarrow> Job list \<Rightarrow> nat option" where
  "find_job_by_pid pg js = (if pg < 0 then None else find_job_by_pgid pg js)"

definition remove_job_by_pgid :: "int \<Rightarrow> Job list \<Rightarrow> Job list" where
  "remove_job_by_pgid g js = filter (\<lambda>j. pgid j \<noteq> g) js"


section \<open>The shell's state and what it does to the outside\<close>

text \<open>
  Every call of the system that the properties below speak about, and every piece of
  output, is recorded in the order the shell makes it. Closing of descriptors and the
  signal dispositions are not recorded.
\<close>

datatype signal = SIGTERM | SIGCONT | SIGNULL

datatype wait_flag = WNOHANG | WUNTRACED | WCONTINUED

datatype effect =
    Cout string
  | Cerr string
  | Perror string
  | Chdir string
  | Pipe
  | Fork
  | Setpgid int int
  | Tcsetpgrp int
  | Tcgetattr
  | Kill int signal
  | Waitpid int "wait_flag list"

text \<open>The global variables of lines 19 and 61-64, and the record of effects.\<close>

record shell =
  jobs :: "Job list"
  next_jid :: int
  child_terminated :: bool
  shell_pgid :: int
  effects :: "effect list"

definition emit :: "effect \<Rightarrow> shell \<Rightarrow> shell" where
  "emit e s = s\<lparr>effects := effects s @ [e]\<rparr>"

text \<open>
  What the system answers. The status word that \<open>waitpid\<close> fills in is read only through
  \<open>WIFEXITED\<close>, \<open>WIFSIGNALED\<close>, \<open>WIFSTOPPED\<close> and \<open>WIFCONTINUED\<close>, of which exactly one
  holds for a reported child.
\<close>

datatype wstatus = Exited nat | Signaled nat | Stopped nat | Continued

datatype errno = ECHILD | EINTR | EOTHER

text \<open>A blocking \<open>waitpid\<close> on a group returns a child with its status, or fails.\<close>

datatype wait_result = Reported int wstatus | Failed errno

text \<open>
  One answer of the non-blocking \<open>waitpid(-1, ...)\<close> of \<open>update_jobs\<close>: the returned
  pid, the status, and what \<open>getpgid\<close> of that pid returns right afterwards (lines 100
  and 101 ask for it). In a POSIX system \<open>waitpid\<close> releases a child that it reports
  as exited or terminated, and \<open>getpgid\<close> of a process that no longer exists fails: for
  such a report the third component is negative. A child that is reported as stopped or
  continued is still there, and the third component is its group.
\<close>

type_synonym reaped = "int \<times> wstatus \<times> int"

record os =
  pipe_ret :: "nat \<Rightarrow> int"
  fork_ret :: "nat \<Rightarrow> int"
  group_wait :: "wait_result list"
  drain_wait :: "reaped list"
  getpgid :: "int \<Rightarrow> int"
  kill_ret :: "int \<Rightarrow> signal \<Rightarrow> int"
  chdir_ret :: "string \<Rightarrow> int"
  home :: "string option"
  arrivals :: "wstatus list"

text \<open>
  \<open>pipe_ret i\<close> and \<open>fork_ret i\<close> are the results of the \<open>i\<close>-th call of \<open>pipe\<close> and
  \<open>fork\<close> in one run of \<open>runPipeline\<close>; \<open>group_wait\<close> and \<open>drain_wait\<close> are the answers
  to the successive calls of \<open>waitpid\<close>. A wait loop that needs more answers than the
  list holds has no result (\<open>None\<close>): the list is a finite piece of a run.
  \<open>arrivals\<close> are the changes of state of children that happen while the shell is
  blocked in \<open>getline\<close>, waiting for the next line.
\<close>

text \<open>Decimal output of an \<open>int\<close>, as \<open>operator<<\<close> prints it.\<close>

definition digit_char :: "nat \<Rightarrow> char" where
  "digit_char d = ''0123456789'' ! d"

function show_nat :: "nat \<Rightarrow> string" where
  "show_nat n = (if n < 10 then [digit_char n] else show_nat (n div 10) @ [digit_char (n mod 10)])"
  by pat_completeness auto
termination
  by (relation "measure (\<lambda>n. n)") auto

declare show_nat.simps [simp del]

definition show_int :: "int \<Rightarrow> string" where
  "show_int i = (if i < 0 then CHR ''-'' # show_nat (nat (- i)) else show_nat (nat i))"

definition status_name :: "JobStatus \<Rightarrow> string" where
  "status_name st = (case st of RUNNING \<Rightarrow> ''Running'' | STOPPED \<Rightarrow> ''Stopped'' | DONE \<Rightarrow> ''Done'')"

definition job_tag :: "Job \<Rightarrow> string" where
  "job_tag j = ''['' @ show_int (jid j) @ ''] '' @ show_int (pgid j)"

definition print_jobs :: "shell \<Rightarrow> shell" where
  "print_jobs s =
     s\<lparr>effects := effects s @
        map (\<lambda>j. Cout (job_tag j @ '' '' @ status_name (status j) @ ''    '' @ cmd j @ ''\<newline>''))
          (jobs s)\<rparr>"


section \<open>Signal/Reap Coordinator (main.cpp lines 19-23, 95-124 and 352-357)\<close>

definition sigchld_handler :: "shell \<Rightarrow> shell" where
  "sigchld_handler s = s\<lparr>child_terminated := True\<rparr>"

text \<open>
  Lines 353-357 install the handler with \<open>sa_flags = SA_RESTART | SA_NOCLDSTOP\<close>.
  POSIX \<open>sigaction\<close>: with \<open>SA_NOCLDSTOP\<close> set, SIGCHLD is not generated when a child
  stops or a stopped child continues; it is generated when a child exits or is
  terminated by a signal. \<open>sigchld_generated\<close> is that rule of the system, and
  \<open>child_state_changed\<close> is what a change of state of a child does to the shell: when
  the signal is generated the handler runs, at whatever point the shell has reached. The
  shell spends its time blocked in \<open>getline\<close> (line 365) and in the blocking
  \<open>waitpid\<close> of lines 295 and 455, so this is where the changes of state of its
  children find it. A call of \<open>waitpid\<close> that reports a change of state returns after
  the handler for that change has run. A change of state that no wait of the turn
  reports (a background child that exits while the shell waits for a foreground group) is
  \<open>child_state_changed\<close> applied to the state in which the next step starts.
\<close>

datatype sa_flag = SA_RESTART | SA_NOCLDSTOP

definition sigchld_flags :: "sa_flag list" where
  "sigchld_flags = [SA_RESTART, SA_NOCLDSTOP]"

definition sigchld_generated :: "sa_flag list \<Rightarrow> wstatus \<Rightarrow> bool" where
  "sigchld_generated flags st =
     (case st of
        Exited c \<Rightarrow> True
      | Signaled n \<Rightarrow> True
      | Stopped n \<Rightarrow> SA_NOCLDSTOP \<notin> set flags
      | Continued \<Rightarrow> SA_NOCLDSTOP \<notin> set flags)"

definition child_state_changed :: "wstatus \<Rightarrow> shell \<Rightarrow> shell" where
  "child_state_changed st s = (if sigchld_generated sigchld_flags st then sigchld_handler s else s)"

text \<open>The body of the loop of \<open>update_jobs\<close> for one reported child (lines 100-121).\<close>

definition handle_reaped :: "wstatus \<Rightarrow> int \<Rightarrow> shell \<Rightarrow> shell" where
  "handle_reaped st pg s =
     (case find_job_by_pid pg (jobs s) of
        None \<Rightarrow> s
      | Some i \<Rightarrow>
          (let j = jobs s ! i in
           case st of
             Exited c \<Rightarrow>
               (emit (Cout (''\<newline>'' @ job_tag j @ '' Done    '' @ cmd j @ ''\<newline>'')) s)
                 \<lparr>jobs := remove_job_by_pgid (pgid j) (jobs s)\<rparr>
           | Signaled n \<Rightarrow>
               (emit (Cout (''\<newline>'' @ job_tag j @ '' Done    '' @ cmd j @ ''\<newline>'')) s)
                 \<lparr>jobs := remove_job_by_pgid (pgid j) (jobs s)\<rparr>
           | Stopped n \<Rightarrow>
               (emit (Cout (''\<newline>'' @ job_tag j @ '' Stopped    '' @ cmd j @ ''\<newline>'')) s)
                 \<lparr>jobs := (jobs s)[i := j\<lparr>status := STOPPED\<rparr>]\<rparr>
           | Continued \<Rightarrow>
               (emit (Cout (''\<newline>'' @ job_tag j @ '' Continued    '' @ cmd j @ ''\<newline>'')) s)
                 \<lparr>jobs := (jobs s)[i := j\<lparr>status := RUNNING\<rparr>]\<rparr>))"

text \<open>
  The loop of line 99: it goes on while \<open>waitpid\<close> returns a positive pid and ends at the
  first answer that is zero or negative.
\<close>

fun update_jobs_loop :: "reaped list \<Rightarrow> shell \<Rightarrow> shell option" where
  "update_jobs_loop [] s = None"
| "update_jobs_loop ((pid, st, pg) # later) s =
     (let s1 = emit (Waitpid (- 1) [WNOHANG, WUNTRACED, WCONTINUED]) s
      in if pid > 0 then update_jobs_loop later (handle_reaped st pg s1) else Some s1)"

definition update_jobs :: "reaped list \<Rightarrow> shell \<Rightarrow> shell option" where
  "update_jobs answers s =
     map_option (\<lambda>s'. s'\<lparr>child_terminated := False\<rparr>) (update_jobs_loop answers s)"


section \<open>Pipeline Executor (\<open>runPipeline\<close>, main.cpp lines 159-326)\<close>

text \<open>
  How a call ends in the process that made it: it returns to the main loop, or the
  process is the new child of a \<open>fork\<close> (which goes on to \<open>execvp\<close> or \<open>_exit\<close> and never
  returns to the loop), or the shell leaves through \<open>exit\<close>.
\<close>

datatype outcome = Returned int shell | InChild nat shell | ShellExit int shell

text \<open>The \<open>cd\<close> builtin, written out twice in the source (lines 167-169 and 394-398).\<close>

definition change_directory :: "os \<Rightarrow> string list \<Rightarrow> shell \<Rightarrow> shell" where
  "change_directory os args s =
     (let path = (if length args > 1 then args ! 1
                  else (case home os of Some h \<Rightarrow> h | None \<Rightarrow> ''/''));
          s1 = emit (Chdir path) s
      in if chdir_ret os path \<noteq> 0 then emit (Perror ''cd'') s1 else s1)"

text \<open>Lines 183-190: \<open>k\<close> pipes are still to be created, the next one is number \<open>i\<close>.\<close>

fun create_pipes :: "os \<Rightarrow> nat \<Rightarrow> nat \<Rightarrow> shell \<Rightarrow> shell + shell" where
  "create_pipes os i 0 s = Inr s"
| "create_pipes os i (Suc k) s =
     (let s1 = emit Pipe s
      in if pipe_ret os i < 0 then Inl (emit (Perror ''pipe'') s1)
         else create_pipes os (Suc i) k s1)"

text \<open>
  Lines 192-266 in the process that called \<open>runPipeline\<close>: \<open>k\<close> stages are still to be
  started, the next one is stage \<open>i\<close>. After a failed \<open>fork\<close> the loop of line 199 calls
  \<open>kill(-c, SIGTERM)\<close> for every child \<open>c\<close> created so far.
\<close>

datatype forked = ForkFailed shell | ForkChild nat shell | Forked int "int list" shell

fun fork_stages :: "os \<Rightarrow> nat \<Rightarrow> nat \<Rightarrow> int \<Rightarrow> int list \<Rightarrow> shell \<Rightarrow> forked" where
  "fork_stages os i 0 g pids s = Forked g pids s"
| "fork_stages os i (Suc k) g pids s =
     (let pid = fork_ret os i; s1 = emit Fork s
      in if pid < 0 then
           ForkFailed (foldl (\<lambda>s' c. emit (Kill (- c) SIGTERM) s') (emit (Perror ''fork'') s1) pids)
         else if pid = 0 then ForkChild i s1
         else (let g' = (if g = 0 then pid else g)
               in fork_stages os (Suc i) k g' (pids @ [pid]) (emit (Setpgid pid g') s1)))"

text \<open>Lines 276-281 and 304-309: a new entry at the end of the table, with the next id.\<close>

definition push_job :: "JobStatus \<Rightarrow> int \<Rightarrow> string \<Rightarrow> shell \<Rightarrow> shell" where
  "push_job st g raw s =
     s\<lparr>jobs := jobs s @ [\<lparr>jid = next_jid s, pgid = g, cmd = raw, status = st\<rparr>],
       next_jid := next_jid s + 1\<rparr>"

definition started_notice :: "int \<Rightarrow> int \<Rightarrow> string" where
  "started_notice n g = ''['' @ show_int n @ ''] '' @ show_int g @ '' Started\<newline>''"

definition stopped_notice :: "int \<Rightarrow> int \<Rightarrow> string \<Rightarrow> string" where
  "stopped_notice n g raw =
     ''\<newline>['' @ show_int n @ ''] '' @ show_int g @ '' Stopped    '' @ raw @ ''\<newline>''"

text \<open>
  The wait loop of lines 294-317 on the answers of \<open>waitpid(-pgid, &status, WUNTRACED)\<close>.
  The change of state that an answer reports has happened while the shell was blocked in
  the call, so the shell goes on in the state that \<open>child_state_changed\<close> leaves.
\<close>

fun wait_foreground :: "wait_result list \<Rightarrow> int \<Rightarrow> string \<Rightarrow> shell \<Rightarrow> shell option" where
  "wait_foreground [] g raw s = None"
| "wait_foreground (w # later) g raw s =
     (let s1 = emit (Waitpid (- g) [WUNTRACED]) s
      in case w of
           Failed e \<Rightarrow>
             (if e = ECHILD then Some s1
              else if e = EINTR then wait_foreground later g raw s1
              else Some s1)
         | Reported p st \<Rightarrow>
             (let s2 = child_state_changed st s1
              in case st of
                   Stopped n \<Rightarrow>
                     Some (emit (Cout (stopped_notice (next_jid s2) g raw)) (push_job STOPPED g raw s2))
                 | Exited c \<Rightarrow> wait_foreground later g raw s2
                 | Signaled n \<Rightarrow> wait_foreground later g raw s2
                 | Continued \<Rightarrow> wait_foreground later g raw s2))"

text \<open>Lines 182-325: everything after the builtin shortcut.\<close>

definition launch :: "os \<Rightarrow> Command list \<Rightarrow> bool \<Rightarrow> string \<Rightarrow> shell \<Rightarrow> outcome option" where
  "launch os cmds background raw s =
     (let n = length cmds
      in case create_pipes os 0 (n - 1) s of
           Inl s1 \<Rightarrow> Some (Returned (- 1) s1)
         | Inr s1 \<Rightarrow>
             (case fork_stages os 0 n 0 [] s1 of
                ForkFailed s2 \<Rightarrow> Some (Returned (- 1) s2)
              | ForkChild i s2 \<Rightarrow> Some (InChild i s2)
              | Forked g0 pids s2 \<Rightarrow>
                  (let g = (if g0 = 0 then (if pids = [] then 0 else pids ! 0) else g0)
                   in if background then
                        Some (Returned 0
                          (emit (Cout (started_notice (next_jid s2) g)) (push_job RUNNING g raw s2)))
                      else
                        map_option
                          (\<lambda>s3. Returned 0 (emit Tcgetattr (emit (Tcsetpgrp (shell_pgid s3)) s3)))
                          (wait_foreground (group_wait os) g raw (emit (Tcsetpgrp g) s2)))))"

definition runPipeline :: "os \<Rightarrow> Command list \<Rightarrow> bool \<Rightarrow> string \<Rightarrow> shell \<Rightarrow> outcome option" where
  "runPipeline os cmds background raw s =
     (let n = length cmds
      in if n = 0 then Some (Returned (- 1) s)
         else if n = 1 \<and> \<not> background \<and> argv (cmds ! 0) \<noteq> [] then
           (let name = argv (cmds ! 0) ! 0
            in if name = ''cd'' then Some (Returned 0 (change_directory os (argv (cmds ! 0)) s))
               else if name = ''jobs'' then Some (Returned 0 (print_jobs s))
               else if name = ''fg'' \<or> name = ''bg'' then launch os cmds background raw s
               else if name = ''exit'' then Some (ShellExit 0 s)
               else launch os cmds background raw s)
         else launch os cmds background raw s)"

text \<open>The calls that line 164-179 answer inside the shell, without starting a process.\<close>

definition inline_builtin :: "Command list \<Rightarrow> bool \<Rightarrow> bool" where
  "inline_builtin cmds background \<longleftrightarrow>
     length cmds = 1 \<and> \<not> background \<and> argv (cmds ! 0) \<noteq> [] \<and>
     (argv (cmds ! 0) ! 0 = ''cd'' \<or> argv (cmds ! 0) ! 0 = ''jobs'' \<or> argv (cmds ! 0) ! 0 = ''exit'')"


section \<open>Foreground Control Switch (\<open>fg\<close> and \<open>bg\<close>, main.cpp lines 402-481)\<close>

text \<open>
  \<open>atoi\<close> of the C library: leading white space, an optional sign, then decimal digits
  up to the first other character; no digits give 0. The result is an \<open>int\<close> of 32 bits.
  For a number outside that range the C standard promises nothing; the definition gives
  what the C library of the platform (glibc on a system with a \<open>long\<close> of 64 bits)
  computes, which is \<open>(int) strtol(str, NULL, 10)\<close>: \<open>strtol\<close> stops at the bounds of
  \<open>long\<close>, and the conversion to \<open>int\<close> keeps the low 32 bits. So \<open>atoi\<close> of
  \<open>2147483648\<close> is \<open>-2147483648\<close>, and \<open>atoi\<close> of \<open>4294967297\<close> is \<open>1\<close>.
\<close>

definition isspace :: "char \<Rightarrow> bool" where
  "isspace c \<longleftrightarrow> c \<in> set [CHR '' '', CHR 0x09, CHR 0x0A, CHR 0x0B, CHR 0x0C, CHR 0x0D]"

definition is_digit :: "char \<Rightarrow> bool" where
  "is_digit c \<longleftrightarrow> c \<in> set ''0123456789''"

definition digit_val :: "char \<Rightarrow> int" where
  "digit_val c = int (of_char c) - 48"

fun atoi_digits :: "string \<Rightarrow> int \<Rightarrow> int" where
  "atoi_digits [] acc = acc"
| "atoi_digits (c # cs) acc = (if is_digit c then atoi_digits cs (acc * 10 + digit_val c) else acc)"

definition decimal_value :: "string \<Rightarrow> int" where
  "decimal_value str =
     (case dropWhile isspace str of
        [] \<Rightarrow> 0
      | c # cs \<Rightarrow>
          if c = CHR ''-'' then - atoi_digits cs 0
          else if c = CHR ''+'' then atoi_digits cs 0
          else atoi_digits (c # cs) 0)"

definition within_long :: "int \<Rightarrow> int" where
  "within_long v =
     (if v > 9223372036854775807 then 9223372036854775807
      else if v < - 9223372036854775808 then - 9223372036854775808
      else v)"

definition low_32_bits :: "int \<Rightarrow> int" where
  "low_32_bits v = (v + 2147483648) mod 4294967296 - 2147483648"

definition atoi :: "string \<Rightarrow> int" where
  "atoi str = low_32_bits (within_long (decimal_value str))"

text \<open>Lines 412-415.\<close>

definition all_digits :: "string \<Rightarrow> bool" where
  "all_digits str \<longleftrightarrow> (\<forall>c \<in> set str. is_digit c)"

text \<open>
  The expression of lines 421 and 425:
  \<open>find_job_by_pgid(p) ? find_job_by_pgid(p) : find_job_by_pid(p)\<close>.
\<close>

definition by_pgid_or_pid :: "os \<Rightarrow> int \<Rightarrow> Job list \<Rightarrow> nat option" where
  "by_pgid_or_pid os p js =
     (case find_job_by_pgid p js of
        Some i \<Rightarrow> Some i
      | None \<Rightarrow> find_job_by_pid (getpgid os p) js)"

text \<open>Lines 404-430: the target of \<open>fg\<close> or \<open>bg\<close>, as a position in the table.\<close>

definition resolve_target :: "os \<Rightarrow> string list \<Rightarrow> Job list \<Rightarrow> nat option" where
  "resolve_target os tokens js =
     (if length tokens > 1 then
        (let a = tokens ! 1
         in if a \<noteq> [] \<and> hd a = CHR ''%'' then
              (let n = atoi (tl a) in if n > 0 then find_job_by_jid n js else None)
            else if all_digits a then
              (case find_job_by_jid (atoi a) js of
                 Some i \<Rightarrow> Some i
               | None \<Rightarrow> (let p = atoi a in if p \<noteq> 0 then by_pgid_or_pid os p js else None))
            else (let p = atoi a in if p \<noteq> 0 then by_pgid_or_pid os p js else None))
      else if js \<noteq> [] then Some (length js - 1) else None)"

text \<open>
  The wait loop of \<open>fg\<close> (lines 454-469); \<open>i\<close> is the position of the target. As in
  \<open>wait_foreground\<close>, a reported change of state has had its notification.
\<close>

fun wait_resumed :: "wait_result list \<Rightarrow> nat \<Rightarrow> shell \<Rightarrow> shell option" where
  "wait_resumed [] i s = None"
| "wait_resumed (w # later) i s =
     (let t = jobs s ! i; s1 = emit (Waitpid (- pgid t) [WUNTRACED]) s
      in case w of
           Failed e \<Rightarrow>
             (if e = ECHILD then Some s1
              else if e = EINTR then wait_resumed later i s1
              else Some s1)
         | Reported p st \<Rightarrow>
             (let s2 = child_state_changed st s1
              in case st of
                   Stopped n \<Rightarrow>
                     Some (emit (Cout (stopped_notice (jid t) (pgid t) (cmd t)))
                            (s2\<lparr>jobs := (jobs s2)[i := t\<lparr>status := STOPPED\<rparr>]\<rparr>))
                 | Exited c \<Rightarrow> wait_resumed later i s2
                 | Signaled n \<Rightarrow> wait_resumed later i s2
                 | Continued \<Rightarrow> wait_resumed later i s2))"

definition send_continue :: "os \<Rightarrow> int \<Rightarrow> shell \<Rightarrow> shell" where
  "send_continue os g s =
     (let s1 = emit (Kill (- g) SIGCONT) s
      in if kill_ret os (- g) SIGCONT < 0 then emit (Perror ''kill(SIGCONT)'') s1 else s1)"

definition fg_bg :: "os \<Rightarrow> string list \<Rightarrow> shell \<Rightarrow> shell option" where
  "fg_bg os tokens s =
     (case resolve_target os tokens (jobs s) of
        None \<Rightarrow> Some (emit (Cerr (tokens ! 0 @ '': no such job\<newline>'')) s)
      | Some i \<Rightarrow>
          (let t = jobs s ! i
           in if tokens ! 0 = ''bg'' then
                (let s1 = send_continue os (pgid t) s;
                     s2 = s1\<lparr>jobs := (jobs s1)[i := t\<lparr>status := RUNNING\<rparr>]\<rparr>
                 in Some (emit (Cout (job_tag t @ '' Continued in background\<newline>'')) s2))
              else
                (let s1 = send_continue os (pgid t) (emit (Tcsetpgrp (pgid t)) s)
                 in case wait_resumed (group_wait os) i s1 of
                      None \<Rightarrow> None
                    | Some s2 \<Rightarrow>
                        (let s3 = emit (Kill (- pgid t) SIGNULL) s2;
                             s4 = (if kill_ret os (- pgid t) SIGNULL < 0
                                   then s3\<lparr>jobs := remove_job_by_pgid (pgid t) (jobs s3)\<rparr>
                                   else s3)
                         in Some (emit (Tcsetpgrp (shell_pgid s4)) s4)))))"


section \<open>The main loop (main.cpp lines 25-43 and 337-494)\<close>

definition ltrim :: "string \<Rightarrow> string" where
  "ltrim str = dropWhile isspace str"

definition rtrim :: "string \<Rightarrow> string" where
  "rtrim str = rev (dropWhile isspace (rev str))"

definition trim :: "string \<Rightarrow> string" where
  "trim str = rtrim (ltrim str)"

text \<open>\<open>parseInput\<close>: the words that \<open>ss >> word\<close> extracts; \<open>w\<close> is the word being read.\<close>

fun split_words :: "string \<Rightarrow> string \<Rightarrow> string list" where
  "split_words [] w = (if w = [] then [] else [w])"
| "split_words (c # cs) w =
     (if isspace c then (if w = [] then split_words cs [] else w # split_words cs [])
      else split_words cs (w @ [c]))"

definition parseInput :: "string \<Rightarrow> string list" where
  "parseInput input = split_words input []"

text \<open>Lines 339-357: the state in which the loop starts; \<open>pid\<close> is the shell's \<open>getpid()\<close>.\<close>

definition main_init :: "int \<Rightarrow> shell" where
  "main_init pid =
     \<lparr>jobs = [], next_jid = 1, child_terminated = False, shell_pgid = pid,
      effects = [Setpgid pid pid, Tcsetpgrp pid, Tcgetattr]\<rparr>"

text \<open>
  How one turn of the loop ends: the loop goes on, the process ends with a status
  (\<open>exit\<close>, or \<open>break\<close> at the end of input and \<open>return 0\<close>), or the process is a child
  that \<open>runPipeline\<close> created.
\<close>

datatype step = Continue shell | Finish int shell | Child nat shell

text \<open>Lines 388-490: the tokens are known, \<open>input\<close> is the line without the final \<open>&\<close>.\<close>

definition run_line :: "os \<Rightarrow> string list \<Rightarrow> bool \<Rightarrow> string \<Rightarrow> shell \<Rightarrow> step option" where
  "run_line os tokens background input s =
     (if tokens \<noteq> [] \<and> tokens ! 0 = ''jobs'' then Some (Continue (print_jobs s))
      else if tokens \<noteq> [] \<and> tokens ! 0 = ''cd'' then Some (Continue (change_directory os tokens s))
      else if tokens \<noteq> [] \<and> tokens ! 0 = ''exit'' then Some (Finish 0 s)
      else if tokens \<noteq> [] \<and> (tokens ! 0 = ''fg'' \<or> tokens ! 0 = ''bg'') then
        map_option Continue (fg_bg os tokens s)
      else
        (let cmds = buildCommands tokens
         in if cmds = [] then Some (Continue s)
            else (case runPipeline os cmds background input s of
                    None \<Rightarrow> None
                  | Some (Returned r s') \<Rightarrow> Some (Continue s')
                  | Some (InChild i s') \<Rightarrow> Some (Child i s')
                  | Some (ShellExit c s') \<Rightarrow> Some (Finish c s'))))"

text \<open>
  Lines 364-490: the prompt, reading a line (\<open>line\<close> is what \<open>getline\<close> delivers, \<open>None\<close>
  at the end of input), and running it. While \<open>getline\<close> waits, the children of the
  shell may change state (\<open>arrivals\<close>); the handler is installed with \<open>SA_RESTART\<close>, so
  the read goes on after it has run.
\<close>

definition read_and_run :: "os \<Rightarrow> string option \<Rightarrow> shell \<Rightarrow> step option" where
  "read_and_run os line s =
     (let s2 = foldl (\<lambda>s' st. child_state_changed st s') (emit (Cout ''myshell> '') s) (arrivals os)
      in case line of
           None \<Rightarrow> Some (Finish 0 s2)
         | Some l \<Rightarrow>
             (let input = trim l
              in if input = [] then Some (Continue s2)
                 else
                   (let amp = (last input = CHR ''&'');
                        input' = (if amp then trim (butlast input) else input);
                        tokens = parseInput input'
                    in if tokens = [] then Some (Continue s2)
                       else
                         (let amp' = (last tokens = ''&'');
                              tokens' = (if amp' then butlast tokens else tokens)
                          in if tokens' = [] then Some (Continue s2)
                             else run_line os tokens' (amp \<or> amp') input' s2))))"

text \<open>One turn of the loop of line 361: line 362, then the rest.\<close>

definition main_iter :: "os \<Rightarrow> string option \<Rightarrow> shell \<Rightarrow> step option" where
  "main_iter os line s =
     (case (if child_terminated s then update_jobs (drain_wait os) s else Some s) of
        None \<Rightarrow> None
      | Some s1 \<Rightarrow> read_and_run os line s1)"


section \<open>Notions used to state the properties\<close>

text \<open>
  The effects of a launch in which every \<open>pipe\<close> and every \<open>fork\<close> succeeds, for \<open>n\<close>
  stages: \<open>n - 1\<close> calls of \<open>pipe\<close>, then for each stage a \<open>fork\<close> and the parent's
  \<open>setpgid\<close> of the new child into the group of the first child.
\<close>

definition fork_effects :: "os \<Rightarrow> nat \<Rightarrow> effect list" where
  "fork_effects os k = concat (map (\<lambda>i. [Fork, Setpgid (fork_ret os i) (fork_ret os 0)]) [0..<k])"

definition launched :: "os \<Rightarrow> nat \<Rightarrow> shell \<Rightarrow> shell" where
  "launched os n s = s\<lparr>effects := effects s @ replicate (n - 1) Pipe @ fork_effects os n\<rparr>"

text \<open>
  An answer of the blocking \<open>waitpid\<close> after which the loops of lines 294-317 and
  454-469 wait again: a child that is not reported stopped, or the error \<open>EINTR\<close>.
\<close>

definition keeps_waiting :: "wait_result \<Rightarrow> bool" where
  "keeps_waiting w =
     (case w of
        Failed e \<Rightarrow> e = EINTR
      | Reported p st \<Rightarrow> (case st of Stopped n \<Rightarrow> False | _ \<Rightarrow> True))"

text \<open>Among the answers there is a report of a change of state that raises the notification.\<close>

definition notified :: "wait_result list \<Rightarrow> bool" where
  "notified ws =
     list_ex (\<lambda>w. case w of Reported p st \<Rightarrow> sigchld_generated sigchld_flags st | Failed e \<Rightarrow> False) ws"

definition is_blocking_wait :: "effect \<Rightarrow> bool" where
  "is_blocking_wait e = (case e of Waitpid t fl \<Rightarrow> WNOHANG \<notin> set fl | _ \<Rightarrow> False)"

definition is_tcsetpgrp :: "effect \<Rightarrow> bool" where
  "is_tcsetpgrp e = (case e of Tcsetpgrp g \<Rightarrow> True | _ \<Rightarrow> False)"

text \<open>
  Process groups as the recorded calls \<open>setpgid(pid, g)\<close> leave them (the last call for a
  process counts), and the processes that \<open>kill(target, sig)\<close> addresses by POSIX: the
  process \<open>target\<close> when it is positive, every member of the group \<open>- target\<close> when it is
  negative. (\<open>kill(-1, sig)\<close> addresses more than the group 1; no group made by \<open>fork\<close>
  has that number.) \<open>signalled es sg p\<close>: among the effects \<open>es\<close> there is a \<open>kill\<close> with
  signal \<open>sg\<close> that addresses \<open>p\<close>, by the groups as they are when the call is made.
\<close>

fun group_of :: "effect list \<Rightarrow> int \<Rightarrow> int option" where
  "group_of [] p = None"
| "group_of (e # es) p =
     (case group_of es p of
        Some g \<Rightarrow> Some g
      | None \<Rightarrow> (case e of Setpgid q g \<Rightarrow> if q = p then Some g else None | _ \<Rightarrow> None))"

definition signal_reaches :: "effect list \<Rightarrow> int \<Rightarrow> int \<Rightarrow> bool" where
  "signal_reaches es target p =
     (if 0 < target then p = target
      else if target < 0 then group_of es p = Some (- target)
      else False)"

fun signalled_from :: "effect list \<Rightarrow> effect list \<Rightarrow> signal \<Rightarrow> int \<Rightarrow> bool" where
  "signalled_from before [] sg p = False"
| "signalled_from before (e # es) sg p =
     ((case e of Kill t sg' \<Rightarrow> sg' = sg \<and> signal_reaches before t p | _ \<Rightarrow> False)
      \<or> signalled_from (before @ [e]) es sg p)"

definition signalled :: "effect list \<Rightarrow> signal \<Rightarrow> int \<Rightarrow> bool" where
  "signalled es sg p = signalled_from [] es sg p"

text \<open>
  The table is in order when the ids grow along it and stay below the counter: then the
  counter is an id that no entry has, and the last entry is the one registered last.
\<close>

definition table_ok :: "shell \<Rightarrow> bool" where
  "table_ok s \<longleftrightarrow> sorted_wrt (<) (map jid (jobs s)) \<and> (\<forall>j \<in> set (jobs s). jid j < next_jid s)"


text \<open>What a call has added to the record of effects.\<close>

definition new_effects :: "shell \<Rightarrow> shell \<Rightarrow> effect list" where
  "new_effects s s' = drop (length (effects s)) (effects s')"


text \<open>
  A system for the examples: every \<open>pipe\<close> succeeds, the \<open>i\<close>-th \<open>fork\<close> returns the
  pid \<open>100 + i\<close>, every \<open>kill\<close> and \<open>chdir\<close> succeeds, \<open>HOME\<close> is not set, and \<open>getpgid\<close>
  knows no process. The blocking waits report that child 100 has exited, are interrupted
  once, and then report that child 101 has stopped. The non-blocking waits report that
  child 100 has exited (\<open>getpgid\<close> of a child that has just been reaped fails) and then
  that nothing is left to report. No child changes state while the shell reads a line.
\<close>

definition sample_os :: os where
  "sample_os =
     \<lparr>pipe_ret = (\<lambda>i. 0), fork_ret = (\<lambda>i. 100 + int i),
      group_wait = [Reported 100 (Exited 0), Failed EINTR, Reported 101 (Stopped 20), Failed ECHILD],
      drain_wait = [(100, Exited 0, - 1), (0, Exited 0, - 1)],
      getpgid = (\<lambda>p. - 1), kill_ret = (\<lambda>p sg. 0), chdir_ret = (\<lambda>p. 0), home = None,
      arrivals = []\<rparr>"

definition sample_stage :: "string list \<Rightarrow> Command" where
  "sample_stage args = \<lparr>argv = args, infile = [], outfile = [], append_flag = False\<rparr>"


text \<open>\<open>WIFEXITED(status) || WIFSIGNALED(status)\<close>, the test of line 102.\<close>

definition is_exit :: "wstatus \<Rightarrow> bool" where
  "is_exit st = (case st of Exited c \<Rightarrow> True | Signaled n \<Rightarrow> True | _ \<Rightarrow> False)"

text \<open>
  The groups that \<open>getpgid\<close> returned for the exited or terminated children that a pass
  of \<open>update_jobs\<close> handles (the answers up to the first one without a child).
\<close>

fun exit_groups :: "reaped list \<Rightarrow> int list" where
  "exit_groups [] = []"
| "exit_groups ((pid, st, pg) # later) =
     (if pid > 0 then (if is_exit st \<and> 0 \<le> pg then [pg] else []) @ exit_groups later else [])"

text \<open>An entry of the table without its status.\<close>

definition forget_status :: "Job \<Rightarrow> int \<times> int \<times> string" where
  "forget_status j = (jid j, pgid j, cmd j)"

text \<open>
  The two sides of ``removed if and only if every member of its group has exited'': the
  table has no entry for the group; every process of the list has been reported as
  exited or terminated by one of the answers.
\<close>

definition job_removed :: "int \<Rightarrow> shell \<Rightarrow> bool" where
  "job_removed g s \<longleftrightarrow> find_job_by_pgid g (jobs s) = None"

definition all_members_exited :: "int list \<Rightarrow> reaped list \<Rightarrow> bool" where
  "all_members_exited pids answers \<longleftrightarrow>
     list_all (\<lambda>p. list_ex (\<lambda>(pid, st, pg). pid = p \<and> is_exit st) answers) pids"

definition is_drain_wait :: "effect \<Rightarrow> bool" where
  "is_drain_wait e = (case e of Waitpid t fl \<Rightarrow> WNOHANG \<in> set fl | _ \<Rightarrow> False)"


text \<open>
  A state for the examples: a running job of group 100, a stopped job of group 200, and
  the flag of the handler set.
\<close>

definition sample_table :: shell where
  "sample_table =
     \<lparr>jobs = [\<lparr>jid = 1, pgid = 100, cmd = ''a | b'', status = RUNNING\<rparr>,
              \<lparr>jid = 2, pgid = 200, cmd = ''vi'', status = STOPPED\<rparr>],
      next_jid = 3, child_terminated = True, shell_pgid = 50, effects = []\<rparr>"


text \<open>
  A step of the shell that leaves the shell's own group as it is, makes no non-blocking
  \<open>waitpid\<close>, and keeps the table in order.
\<close>

definition quiet_step :: "shell \<Rightarrow> shell \<Rightarrow> bool" where
  "quiet_step s s' \<longleftrightarrow>
     shell_pgid s' = shell_pgid s \<and>
     (\<exists>es. effects s' = effects s @ es \<and> filter is_drain_wait es = []) \<and>
     (table_ok s \<longrightarrow> table_ok s')"

definition outcome_state :: "outcome \<Rightarrow> shell" where
  "outcome_state r = (case r of Returned c s \<Rightarrow> s | InChild i s \<Rightarrow> s | ShellExit c s \<Rightarrow> s)"

definition step_state :: "step \<Rightarrow> shell" where
  "step_state r = (case r of Continue s \<Rightarrow> s | Finish c s \<Rightarrow> s | Child i s \<Rightarrow> s)"


text \<open>
  \<open>first_with P xs i\<close>: the entry at position \<open>i\<close> is the first one of \<open>xs\<close> for which
  \<open>P\<close> holds. \<open>continue_effects\<close>: what \<open>send_continue\<close> does to the outside.
\<close>

definition first_with :: "('a \<Rightarrow> bool) \<Rightarrow> 'a list \<Rightarrow> nat \<Rightarrow> bool" where
  "first_with P xs i \<longleftrightarrow> i < length xs \<and> P (xs ! i) \<and> \<not> list_ex P (take i xs)"

definition continue_effects :: "os \<Rightarrow> int \<Rightarrow> effect list" where
  "continue_effects os g =
     Kill (- g) SIGCONT # (if kill_ret os (- g) SIGCONT < 0 then [Perror ''kill(SIGCONT)''] else [])"


section \<open>Properties of the Command Builder\<close>

lemma upd_back_length [simp]: "length (upd_back f cmds) = length cmds"
  by (simp add: upd_back_def)

lemma upd_back_Nil_iff [simp]: "upd_back f cmds = [] \<longleftrightarrow> cmds = []"
  by (simp add: upd_back_def)

lemma last_upd_back [simp]: "cmds \<noteq> [] \<Longrightarrow> last (upd_back f cmds) = f (last cmds)"
  by (simp add: upd_back_def)

lemma upd_back_snoc [simp]: "upd_back f (xs @ [c]) = xs @ [f c]"
  by (simp add: upd_back_def)

lemma loop_length_le:
  "length (buildCommands_loop tokens cmds) \<le> length cmds + count_list tokens ''|''"
proof (induction tokens cmds rule: buildCommands_loop.induct)
  case (1 cmds)
  show ?case by simp
next
  case (2 tk rest cmds)
  show ?case
  proof (cases rest)
    case Nil
    then show ?thesis by simp
  next
    case (Cons f rest')
    with 2 show ?thesis
      by (auto simp: le_SucI) 
  qed
qed

lemma loop_length_ge: "length cmds \<le> length (buildCommands_loop tokens cmds)"
proof (induction tokens cmds rule: buildCommands_loop.induct)
  case (1 cmds)
  show ?case by simp
next
  case (2 tk rest cmds)
  show ?case
  proof (cases rest)
    case Nil
    then show ?thesis by simp
  next
    case (Cons f rest')
    with 2 show ?thesis
      by (auto intro: Suc_leD) 
  qed
qed

lemma loop_not_Nil: "cmds \<noteq> [] \<Longrightarrow> buildCommands_loop tokens cmds \<noteq> []"
  using loop_length_ge [of cmds tokens] by (cases cmds) auto

lemma loop_append:
  "closed pre \<Longrightarrow>
   buildCommands_loop (pre @ rest) cmds = buildCommands_loop rest (buildCommands_loop pre cmds)"
proof (induction pre cmds rule: buildCommands_loop.induct)
  case (1 cmds)
  show ?case by simp
next
  case (2 tk ts cmds)
  show ?case
  proof (cases ts)
    case Nil
    with 2 show ?thesis by (auto simp: is_redirect_def)
  next
    case (Cons f ts')
    with 2 show ?thesis by (auto simp: is_redirect_def)
  qed
qed

lemma upd_back_append [simp]:
  "cmds \<noteq> [] \<Longrightarrow> upd_back f (xs @ cmds) = xs @ upd_back f cmds"
  by (simp add: upd_back_def butlast_append)

lemma loop_prefix:
  "cmds \<noteq> [] \<Longrightarrow>
   buildCommands_loop tokens (xs @ cmds) = xs @ buildCommands_loop tokens cmds"
proof (induction tokens cmds rule: buildCommands_loop.induct)
  case (1 cmds)
  show ?case by simp
next
  case (2 tk rest cmds)
  show ?case
  proof (cases rest)
    case Nil
    with 2 show ?thesis by auto
  next
    case (Cons f rest')
    with 2 show ?thesis by auto
  qed
qed

lemma no_later_in_keeps:
  "no_later_in post \<Longrightarrow> cmds \<noteq> [] \<Longrightarrow>
   length (buildCommands_loop post cmds) = length cmds \<and>
   infile (last (buildCommands_loop post cmds)) = infile (last cmds)"
proof (induction post cmds rule: buildCommands_loop.induct)
  case (1 cmds)
  show ?case by simp
next
  case (2 tk rest cmds)
  show ?case
  proof (cases rest)
    case Nil
    with 2 show ?thesis by auto
  next
    case (Cons f rest')
    with 2 show ?thesis by (auto split: if_splits)
  qed
qed

lemma no_later_out_keeps:
  "no_later_out post \<Longrightarrow> cmds \<noteq> [] \<Longrightarrow>
   length (buildCommands_loop post cmds) = length cmds \<and>
   outfile (last (buildCommands_loop post cmds)) = outfile (last cmds) \<and>
   append_flag (last (buildCommands_loop post cmds)) = append_flag (last cmds)"
proof (induction post cmds rule: buildCommands_loop.induct)
  case (1 cmds)
  show ?case by simp
next
  case (2 tk rest cmds)
  show ?case
  proof (cases rest)
    case Nil
    with 2 show ?thesis by auto
  next
    case (Cons f rest')
    with 2 show ?thesis by (auto split: if_splits)
  qed
qed


lemma buildCommands_nth:
  "n + 1 < length (buildCommands_loop tokens [empty_Command]) \<Longrightarrow>
   buildCommands tokens ! n = buildCommands_loop tokens [empty_Command] ! n"
  by (simp add: buildCommands_def Let_def nth_butlast)

lemma buildCommands_keep:
  "\<not> entirely_empty (last (buildCommands_loop tokens [empty_Command])) \<Longrightarrow>
   buildCommands tokens = buildCommands_loop tokens [empty_Command]"
  by (simp add: buildCommands_def Let_def)

lemma loop_stage_then_pipe:
  assumes "closed pre" and "closed post" and "is_redirect op"
  shows "buildCommands_loop (pre @ op # f # post @ ''|'' # rest) [empty_Command] =
         buildCommands_loop (op # f # post) (buildCommands_loop pre [empty_Command])
           @ buildCommands_loop rest [empty_Command]"
proof -
  let ?P = "buildCommands_loop pre [empty_Command]"
  have cl: "closed (op # f # post)"
    using assms(2,3) by simp
  have "buildCommands_loop (pre @ op # f # post @ ''|'' # rest) [empty_Command] =
        buildCommands_loop ((op # f # post) @ ''|'' # rest) ?P"
    using loop_append [OF assms(1), of "op # f # post @ ''|'' # rest" "[empty_Command]"]
    by simp
  also have "\<dots> = buildCommands_loop (''|'' # rest) (buildCommands_loop (op # f # post) ?P)"
    by (rule loop_append [OF cl])
  also have "\<dots> = buildCommands_loop rest (buildCommands_loop (op # f # post) ?P @ [empty_Command])"
    by simp
  also have "\<dots> = buildCommands_loop (op # f # post) ?P @ buildCommands_loop rest [empty_Command]"
    by (rule loop_prefix) simp
  finally show ?thesis .
qed

lemma stage_in_middle:
  assumes "closed pre" and "closed post" and "is_redirect op"
    and len: "length (buildCommands_loop (op # f # post) (buildCommands_loop pre [empty_Command]))
              = length (buildCommands_loop pre [empty_Command])"
  shows "buildCommands (pre @ op # f # post @ ''|'' # rest) ! stage_index pre =
         last (buildCommands_loop (op # f # post) (buildCommands_loop pre [empty_Command]))"
proof -
  let ?P = "buildCommands_loop pre [empty_Command]"
  let ?Q = "buildCommands_loop (op # f # post) ?P"
  let ?R = "buildCommands_loop rest [empty_Command]"
  have P: "?P \<noteq> []" by (rule loop_not_Nil) simp
  have R: "?R \<noteq> []" by (rule loop_not_Nil) simp
  have Q: "?Q \<noteq> []" using len P by auto
  have eq: "buildCommands_loop (pre @ op # f # post @ ''|'' # rest) [empty_Command] = ?Q @ ?R"
    by (rule loop_stage_then_pipe [OF assms(1,2,3)])
  have idx: "stage_index pre = length ?Q - 1"
    unfolding stage_index_def len ..
  have lt: "stage_index pre + 1 < length (?Q @ ?R)"
    using Q R unfolding idx by (simp only: length_append length_greater_0_conv [symmetric])
  have "buildCommands (pre @ op # f # post @ ''|'' # rest) ! stage_index pre =
        (?Q @ ?R) ! stage_index pre"
    using buildCommands_nth [of "stage_index pre" "pre @ op # f # post @ ''|'' # rest"] lt
    unfolding eq by blast
  also have "\<dots> = ?Q ! (length ?Q - 1)"
    using Q unfolding idx by (simp only: nth_append length_greater_0_conv [symmetric]) simp
  also have "\<dots> = last ?Q"
    by (rule last_conv_nth [OF Q, symmetric])
  finally show ?thesis .
qed

lemma stage_at_end:
  assumes "closed pre"
  shows "buildCommands_loop (pre @ op # f # post) [empty_Command] =
         buildCommands_loop (op # f # post) (buildCommands_loop pre [empty_Command])"
  by (rule loop_append [OF assms])


text \<open>
  Claim C8. A token sequence with \<open>k\<close> pipe tokens gives at most \<open>k + 1\<close> stages. When the
  last stage that the loop has built is entirely empty (no arguments, no input file, no
  output file), it is dropped: the result is what the loop built without its last
  element, and then there are at most \<open>k\<close> stages. In particular a dangling pipe at the
  end of the line leaves exactly the stages built from the tokens before it. Only that one
  stage is dropped; the stage before it is kept whatever it holds.
\<close>

theorem buildCommands_stage_count:
  "length (buildCommands tokens) \<le> count_list tokens ''|'' + 1 \<and>
   (entirely_empty (last (buildCommands_loop tokens [empty_Command])) \<longrightarrow>
      buildCommands tokens = butlast (buildCommands_loop tokens [empty_Command]) \<and>
      length (buildCommands tokens) \<le> count_list tokens ''|'') \<and>
   (closed pre \<longrightarrow>
      buildCommands (pre @ [''|'']) = buildCommands_loop pre [empty_Command])"
proof -
  let ?L = "buildCommands_loop tokens [empty_Command]"
  have ne: "?L \<noteq> []" by (rule loop_not_Nil) simp
  have le: "length ?L \<le> count_list tokens ''|'' + 1"
    using loop_length_le [of tokens "[empty_Command]"] by simp
  have bound: "length (buildCommands tokens) \<le> count_list tokens ''|'' + 1"
    using le by (auto simp: buildCommands_def Let_def)
  have dropped: "buildCommands tokens = butlast ?L \<and>
      length (buildCommands tokens) \<le> count_list tokens ''|''"
    if "entirely_empty (last ?L)"
    using that ne le by (simp add: buildCommands_def Let_def)
  have trailing: "buildCommands (pre @ [''|'']) = buildCommands_loop pre [empty_Command]"
    if "closed pre"
  proof -
    have "buildCommands_loop (pre @ [''|'']) [empty_Command] =
          buildCommands_loop pre [empty_Command] @ [empty_Command]"
      using loop_append [OF that, of "[''|'']" "[empty_Command]"] by simp
    then show ?thesis
      by (simp add: buildCommands_def entirely_empty_def empty_Command_def)
  qed
  from bound dropped trailing show ?thesis by blast
qed

theorem buildCommands_stage_count_witness:
  "entirely_empty (last (buildCommands_loop [''ls'', ''|'', ''wc'', ''|''] [empty_Command])) \<and>
   closed [''ls'', ''|'', ''wc''] \<and>
   count_list [''ls'', ''|'', ''wc'', ''|''] ''|'' = 2 \<and>
   buildCommands [''ls'', ''|'', ''wc'', ''|''] =
     [\<lparr>argv = [''ls''], infile = [], outfile = [], append_flag = False\<rparr>,
      \<lparr>argv = [''wc''], infile = [], outfile = [], append_flag = False\<rparr>]"
  using buildCommands_stage_count [of "[''ls'', ''|'', ''wc'', ''|'']" "[''ls'', ''|'', ''wc'']"]
  by (simp add: entirely_empty_def empty_Command_def is_redirect_def upd_back_def)

text \<open>
  Claim C10. Within one stage the last redirection of a stream wins. Let the tokens
  \<open>pre\<close> be read completely (so that the operator after them is in operator position),
  and let \<open>post\<close> stay within the stage and hold no further redirection of the same
  stream. Then the stage gets the path \<open>f\<close> that follows the operator, whatever
  redirections \<open>pre\<close> held: as input file after \<open><\<close>; as output file after \<open>>\<close> or
  \<open>>>\<close>, with the append flag set exactly for \<open>>>\<close>. This holds for the last stage of
  the line and for a stage that is closed by a pipe token.
\<close>

theorem buildCommands_last_redirection_wins:
  assumes "closed pre"
  shows "(no_later_in post \<longrightarrow>
            (f \<noteq> [] \<longrightarrow> infile (last (buildCommands (pre @ ''<'' # f # post))) = f) \<and>
            (closed post \<longrightarrow>
               infile (buildCommands (pre @ ''<'' # f # post @ ''|'' # rest) ! stage_index pre)
                 = f)) \<and>
         (no_later_out post \<and> (op = ''>'' \<or> op = ''>>'') \<longrightarrow>
            (f \<noteq> [] \<longrightarrow>
               outfile (last (buildCommands (pre @ op # f # post))) = f \<and>
               append_flag (last (buildCommands (pre @ op # f # post))) = (op = ''>>'')) \<and>
            (closed post \<longrightarrow>
               outfile (buildCommands (pre @ op # f # post @ ''|'' # rest) ! stage_index pre)
                 = f \<and>
               append_flag (buildCommands (pre @ op # f # post @ ''|'' # rest) ! stage_index pre)
                 = (op = ''>>'')))"
proof -
  let ?P = "buildCommands_loop pre [empty_Command]"
  have P: "?P \<noteq> []" by (rule loop_not_Nil) simp
  have in_part: "(f \<noteq> [] \<longrightarrow> infile (last (buildCommands (pre @ ''<'' # f # post))) = f) \<and>
      (closed post \<longrightarrow>
         infile (buildCommands (pre @ ''<'' # f # post @ ''|'' # rest) ! stage_index pre) = f)"
    if post: "no_later_in post"
  proof -
    let ?U = "upd_back (\<lambda>c. c\<lparr>infile := f\<rparr>) ?P"
    let ?Q = "buildCommands_loop (''<'' # f # post) ?P"
    have Q: "?Q = buildCommands_loop post ?U" by simp
    have keeps: "length ?Q = length ?P \<and> infile (last ?Q) = f"
      using no_later_in_keeps [OF post, of ?U] P unfolding Q by simp
    have "infile (last (buildCommands (pre @ ''<'' # f # post))) = f" if "f \<noteq> []"
    proof -
      have "\<not> entirely_empty (last ?Q)"
        using keeps that by (simp add: entirely_empty_def)
      then have "buildCommands (pre @ ''<'' # f # post) = ?Q"
        using buildCommands_keep [of "pre @ ''<'' # f # post"]
        unfolding stage_at_end [OF assms] by blast
      then show ?thesis using keeps by simp
    qed
    moreover have
      "infile (buildCommands (pre @ ''<'' # f # post @ ''|'' # rest) ! stage_index pre) = f"
      if "closed post"
      using stage_in_middle [OF assms that, of "''<''" f rest] keeps
      by (simp only: is_redirect_def simp_thms)
    ultimately show ?thesis by blast
  qed
  have out_part: "(f \<noteq> [] \<longrightarrow>
         outfile (last (buildCommands (pre @ op # f # post))) = f \<and>
         append_flag (last (buildCommands (pre @ op # f # post))) = (op = ''>>'')) \<and>
      (closed post \<longrightarrow>
         outfile (buildCommands (pre @ op # f # post @ ''|'' # rest) ! stage_index pre) = f \<and>
         append_flag (buildCommands (pre @ op # f # post @ ''|'' # rest) ! stage_index pre)
           = (op = ''>>''))"
    if post: "no_later_out post" and op: "op = ''>'' \<or> op = ''>>''"
  proof -
    let ?U = "upd_back (\<lambda>c. c\<lparr>outfile := f, append_flag := (op = ''>>'')\<rparr>) ?P"
    let ?Q = "buildCommands_loop (op # f # post) ?P"
    have Q: "?Q = buildCommands_loop post ?U" using op by auto
    have red: "is_redirect op" using op by (auto simp: is_redirect_def)
    have keeps: "length ?Q = length ?P \<and> outfile (last ?Q) = f \<and>
        append_flag (last ?Q) = (op = ''>>'')"
      using no_later_out_keeps [OF post, of ?U] P unfolding Q by simp
    have "outfile (last (buildCommands (pre @ op # f # post))) = f \<and>
          append_flag (last (buildCommands (pre @ op # f # post))) = (op = ''>>'')"
      if "f \<noteq> []"
    proof -
      have "\<not> entirely_empty (last ?Q)"
        using keeps that by (simp add: entirely_empty_def)
      then have "buildCommands (pre @ op # f # post) = ?Q"
        using buildCommands_keep [of "pre @ op # f # post"]
        unfolding stage_at_end [OF assms] by blast
      then show ?thesis using keeps by simp
    qed
    moreover have
      "outfile (buildCommands (pre @ op # f # post @ ''|'' # rest) ! stage_index pre) = f \<and>
       append_flag (buildCommands (pre @ op # f # post @ ''|'' # rest) ! stage_index pre)
         = (op = ''>>'')"
      if "closed post"
      using stage_in_middle [OF assms that red, of f rest] keeps by simp
    ultimately show ?thesis by blast
  qed
  from in_part out_part show ?thesis by blast
qed


theorem buildCommands_last_redirection_wins_witness:
  "closed [''sort'', ''<'', ''a'', ''>'', ''x''] \<and> closed [''-r''] \<and>
   no_later_in [''-r''] \<and> no_later_out [''-r''] \<and> ''b'' \<noteq> [] \<and>
   stage_index [''sort'', ''<'', ''a'', ''>'', ''x''] = 0 \<and>
   infile (last (buildCommands [''sort'', ''<'', ''a'', ''>'', ''x'', ''<'', ''b'', ''-r''])) = ''b'' \<and>
   infile (buildCommands
       [''sort'', ''<'', ''a'', ''>'', ''x'', ''<'', ''b'', ''-r'', ''|'', ''wc''] ! 0) = ''b'' \<and>
   outfile (last (buildCommands [''sort'', ''<'', ''a'', ''>'', ''x'', ''>>'', ''b'', ''-r''])) = ''b'' \<and>
   append_flag (last (buildCommands [''sort'', ''<'', ''a'', ''>'', ''x'', ''>>'', ''b'', ''-r''])) \<and>
   outfile (buildCommands
       [''sort'', ''<'', ''a'', ''>'', ''x'', ''>>'', ''b'', ''-r'', ''|'', ''wc''] ! 0) = ''b'' \<and>
   append_flag (buildCommands
       [''sort'', ''<'', ''a'', ''>'', ''x'', ''>>'', ''b'', ''-r'', ''|'', ''wc''] ! 0)"
  using buildCommands_last_redirection_wins
    [of "[''sort'', ''<'', ''a'', ''>'', ''x'']" "[''-r'']" "''b''" "[''wc'']" "''>>''"]
  by (simp add: is_redirect_def stage_index_def upd_back_def empty_Command_def)

section \<open>Properties of the Pipeline Executor\<close>

lemma emit_fields [simp]:
  "jobs (emit e s) = jobs s" "next_jid (emit e s) = next_jid s"
  "child_terminated (emit e s) = child_terminated s" "shell_pgid (emit e s) = shell_pgid s"
  "effects (emit e s) = effects s @ [e]"
  by (simp_all add: emit_def)

lemma emit_conv: "emit e s = s\<lparr>effects := effects s @ [e]\<rparr>"
  by (simp add: emit_def)

lemma effects_self [simp]: "s\<lparr>effects := effects s\<rparr> = s"
  by simp

lemma create_pipes_ok:
  "(\<forall>j. i \<le> j \<and> j < i + k \<longrightarrow> 0 \<le> pipe_ret os j) \<Longrightarrow>
   create_pipes os i k s = Inr (s\<lparr>effects := effects s @ replicate k Pipe\<rparr>)"
proof (induction k arbitrary: i s)
  case 0
  show ?case by simp
next
  case (Suc k)
  have here: "\<not> pipe_ret os i < 0"
    using Suc.prems by (simp add: not_less)
  have later: "\<forall>j. Suc i \<le> j \<and> j < Suc i + k \<longrightarrow> 0 \<le> pipe_ret os j"
    using Suc.prems by simp
  show ?case
    using here Suc.IH [OF later, of "emit Pipe s"]
    by (simp add: emit_conv replicate_app_Cons_same)
qed

lemma create_pipes_fail:
  "(\<forall>j. i \<le> j \<and> j < i + m \<longrightarrow> 0 \<le> pipe_ret os j) \<Longrightarrow> pipe_ret os (i + m) < 0 \<Longrightarrow> m < k \<Longrightarrow>
   create_pipes os i k s =
     Inl (s\<lparr>effects := effects s @ replicate (Suc m) Pipe @ [Perror ''pipe'']\<rparr>)"
proof (induction m arbitrary: i k s)
  case 0
  then obtain k' where k: "k = Suc k'" by (cases k) auto
  show ?case using 0 by (simp add: k emit_conv)
next
  case (Suc m)
  then obtain k' where k: "k = Suc k'" by (cases k) auto
  have here: "\<not> pipe_ret os i < 0"
    using Suc.prems(1) by (simp add: not_less)
  have later: "\<forall>j. Suc i \<le> j \<and> j < Suc i + m \<longrightarrow> 0 \<le> pipe_ret os j"
    using Suc.prems(1) by simp
  have bad: "pipe_ret os (Suc i + m) < 0" using Suc.prems(2) by simp
  have lt: "m < k'" using Suc.prems(3) k by simp
  show ?case
    using here Suc.IH [OF later bad lt, of "emit Pipe s"]
    by (simp add: k emit_conv replicate_app_Cons_same)
qed

lemma fork_stages_ok:
  "g \<noteq> 0 \<Longrightarrow> (\<forall>j. i \<le> j \<and> j < i + k \<longrightarrow> 0 < fork_ret os j) \<Longrightarrow>
   fork_stages os i k g pids s =
     Forked g (pids @ map (fork_ret os) [i..<i + k])
       (s\<lparr>effects := effects s @
            concat (map (\<lambda>j. [Fork, Setpgid (fork_ret os j) g]) [i..<i + k])\<rparr>)"
proof (induction k arbitrary: i pids s)
  case 0
  show ?case by simp
next
  case (Suc k)
  have here: "0 < fork_ret os i" using Suc.prems(2) by simp
  have later: "\<forall>j. Suc i \<le> j \<and> j < Suc i + k \<longrightarrow> 0 < fork_ret os j"
    using Suc.prems(2) by simp
  have upt: "[i..<i + Suc k] = i # [Suc i..<Suc i + k]"
    by (simp add: upt_conv_Cons)
  show ?case
    using here Suc.prems(1)
      Suc.IH [OF Suc.prems(1) later, of "pids @ [fork_ret os i]"
        "emit (Setpgid (fork_ret os i) g) (emit Fork s)"]
    unfolding upt by (simp add: emit_conv Let_def)
qed

lemma foldl_kill:
  "foldl (\<lambda>s' c. s'\<lparr>effects := effects s' @ [Kill (- c) SIGTERM]\<rparr>) s pids =
   s\<lparr>effects := effects s @ map (\<lambda>c. Kill (- c) SIGTERM) pids\<rparr>"
  by (induction pids arbitrary: s) simp_all

lemma fork_stages_fail:
  "g \<noteq> 0 \<Longrightarrow> (\<forall>j. i \<le> j \<and> j < i + k \<longrightarrow> 0 < fork_ret os j) \<Longrightarrow>
   fork_ret os (i + k) < 0 \<Longrightarrow> k < m \<Longrightarrow>
   fork_stages os i m g pids s =
     ForkFailed
       (s\<lparr>effects := effects s @
            concat (map (\<lambda>j. [Fork, Setpgid (fork_ret os j) g]) [i..<i + k]) @
            [Fork, Perror ''fork''] @
            map (\<lambda>c. Kill (- c) SIGTERM) (pids @ map (fork_ret os) [i..<i + k])\<rparr>)"
proof (induction k arbitrary: i m pids s)
  case 0
  then obtain m' where m: "m = Suc m'" by (cases m) auto
  show ?case using 0 by (simp add: m foldl_kill emit_conv)
next
  case (Suc k)
  then obtain m' where m: "m = Suc m'" by (cases m) auto
  have here: "0 < fork_ret os i" using Suc.prems(2) by simp
  have later: "\<forall>j. Suc i \<le> j \<and> j < Suc i + k \<longrightarrow> 0 < fork_ret os j"
    using Suc.prems(2) by simp
  have bad: "fork_ret os (Suc i + k) < 0" using Suc.prems(3) by simp
  have lt: "k < m'" using Suc.prems(4) m by simp
  have upt: "[i..<i + Suc k] = i # [Suc i..<Suc i + k]"
    by (simp add: upt_conv_Cons)
  show ?case
    using here Suc.prems(1)
      Suc.IH [OF Suc.prems(1) later bad lt, of "pids @ [fork_ret os i]"
        "emit (Setpgid (fork_ret os i) g) (emit Fork s)"]
    unfolding upt by (simp add: m emit_conv Let_def)
qed

lemma fork_stages_all:
  assumes "0 < n" and ok: "\<forall>j<n. 0 < fork_ret os j"
  shows "fork_stages os 0 n 0 [] s =
     Forked (fork_ret os 0) (map (fork_ret os) [0..<n])
       (s\<lparr>effects := effects s @ fork_effects os n\<rparr>)"
proof -
  obtain k where n: "n = Suc k" using assms(1) by (cases n) auto
  have first: "0 < fork_ret os 0" using ok n by simp
  then have g: "fork_ret os 0 \<noteq> 0" by simp
  have later: "\<forall>j. Suc 0 \<le> j \<and> j < Suc 0 + k \<longrightarrow> 0 < fork_ret os j"
    using ok n by simp
  have upt: "[0..<Suc k] = 0 # [Suc 0..<Suc 0 + k]"
    by (simp add: upt_conv_Cons)
  show ?thesis
    using first fork_stages_ok [OF g later, of "[fork_ret os 0]"
        "emit (Setpgid (fork_ret os 0) (fork_ret os 0)) (emit Fork s)"]
    unfolding n fork_effects_def upt by (simp add: emit_conv Let_def)
qed

lemma fork_stages_fails_at:
  assumes "k < n" and ok: "\<forall>j<k. 0 < fork_ret os j" and bad: "fork_ret os k < 0"
  shows "fork_stages os 0 n 0 [] s =
     ForkFailed
       (s\<lparr>effects := effects s @ fork_effects os k @ [Fork, Perror ''fork''] @
            map (\<lambda>c. Kill (- c) SIGTERM) (map (fork_ret os) [0..<k])\<rparr>)"
proof (cases k)
  case 0
  obtain n' where n: "n = Suc n'" using assms(1) by (cases n) auto
  show ?thesis using bad unfolding 0 n fork_effects_def by (simp add: emit_conv)
next
  case (Suc k')
  obtain n' where n: "n = Suc n'" using assms(1) by (cases n) auto
  have first: "0 < fork_ret os 0" using ok Suc by simp
  then have g: "fork_ret os 0 \<noteq> 0" by simp
  have later: "\<forall>j. Suc 0 \<le> j \<and> j < Suc 0 + k' \<longrightarrow> 0 < fork_ret os j"
    using ok Suc by simp
  have bad': "fork_ret os (Suc 0 + k') < 0" using bad Suc by simp
  have lt: "k' < n'" using assms(1) Suc n by simp
  have upt: "[0..<Suc k'] = 0 # [Suc 0..<Suc 0 + k']"
    by (simp add: upt_conv_Cons)
  show ?thesis
    using first fork_stages_fail [OF g later bad' lt, of "[fork_ret os 0]"
        "emit (Setpgid (fork_ret os 0) (fork_ret os 0)) (emit Fork s)"]
    unfolding n Suc fork_effects_def upt by (simp add: emit_conv Let_def)
qed


lemma child_state_changed_conv:
  "child_state_changed st s =
     s\<lparr>child_terminated := child_terminated s \<or> sigchld_generated sigchld_flags st\<rparr>"
  by (simp add: child_state_changed_def sigchld_handler_def)

lemma child_state_changed_fields [simp]:
  "jobs (child_state_changed st s) = jobs s"
  "next_jid (child_state_changed st s) = next_jid s"
  "shell_pgid (child_state_changed st s) = shell_pgid s"
  "effects (child_state_changed st s) = effects s"
  by (simp_all add: child_state_changed_conv)

lemma not_notified_stop [simp]: "\<not> sigchld_generated sigchld_flags (Stopped n)"
  by (simp add: sigchld_generated_def sigchld_flags_def)

lemma notified_Nil [simp]: "\<not> notified []"
  by (simp add: notified_def)

lemma notified_Cons:
  "notified (w # ws) \<longleftrightarrow>
     (case w of Reported p st \<Rightarrow> sigchld_generated sigchld_flags st | Failed e \<Rightarrow> False) \<or> notified ws"
  by (simp add: notified_def)

lemma wait_foreground_stop:
  "\<forall>w \<in> set pre. keeps_waiting w \<Longrightarrow>
   wait_foreground (pre @ Reported p (Stopped n) # later) g raw s =
     Some (s\<lparr>jobs := jobs s @ [\<lparr>jid = next_jid s, pgid = g, cmd = raw, status = STOPPED\<rparr>],
            next_jid := next_jid s + 1,
            child_terminated := child_terminated s \<or> notified pre,
            effects := effects s @ replicate (Suc (length pre)) (Waitpid (- g) [WUNTRACED]) @
              [Cout (stopped_notice (next_jid s) g raw)]\<rparr>)"
proof (induction pre arbitrary: s)
  case Nil
  show ?case by (simp add: emit_conv push_job_def child_state_changed_conv)
next
  case (Cons w pre)
  have rest: "\<forall>w \<in> set pre. keeps_waiting w" using Cons.prems by simp
  have w: "keeps_waiting w" using Cons.prems by simp
  let ?s1 = "emit (Waitpid (- g) [WUNTRACED]) s"
  show ?case
  proof (cases w)
    case (Failed e)
    with w have e: "e = EINTR" by (simp add: keeps_waiting_def)
    show ?thesis
      using Cons.IH [OF rest, of ?s1]
      by (simp add: Failed e emit_conv replicate_app_Cons_same notified_Cons)
  next
    case (Reported q st)
    with w have st: "\<not> (\<exists>k. st = Stopped k)" by (auto simp: keeps_waiting_def)
    have step: "wait_foreground ((w # pre) @ Reported p (Stopped n) # later) g raw s =
        wait_foreground (pre @ Reported p (Stopped n) # later) g raw (child_state_changed st ?s1)"
      using st by (cases st) (simp_all add: Reported Let_def)
    show ?thesis
      unfolding step
      using Cons.IH [OF rest, of "child_state_changed st ?s1"]
      by (simp add: Reported emit_conv replicate_app_Cons_same notified_Cons
          child_state_changed_conv disj_assoc)
  qed
qed

lemma wait_foreground_fail:
  "\<forall>w \<in> set pre. keeps_waiting w \<Longrightarrow> e \<noteq> EINTR \<Longrightarrow>
   wait_foreground (pre @ Failed e # later) g raw s =
     Some (s\<lparr>child_terminated := child_terminated s \<or> notified pre,
            effects := effects s @ replicate (Suc (length pre)) (Waitpid (- g) [WUNTRACED])\<rparr>)"
proof (induction pre arbitrary: s)
  case Nil
  then show ?case by (simp add: emit_conv Let_def)
next
  case (Cons w pre)
  have rest: "\<forall>w \<in> set pre. keeps_waiting w" using Cons.prems by simp
  have w: "keeps_waiting w" using Cons.prems by simp
  let ?s1 = "emit (Waitpid (- g) [WUNTRACED]) s"
  show ?case
  proof (cases w)
    case (Failed e')
    with w have e': "e' = EINTR" by (simp add: keeps_waiting_def)
    show ?thesis
      using Cons.IH [OF rest Cons.prems(2), of ?s1]
      by (simp add: Failed e' emit_conv replicate_app_Cons_same notified_Cons)
  next
    case (Reported q st)
    with w have st: "\<not> (\<exists>k. st = Stopped k)" by (auto simp: keeps_waiting_def)
    have step: "wait_foreground ((w # pre) @ Failed e # later) g raw s =
        wait_foreground (pre @ Failed e # later) g raw (child_state_changed st ?s1)"
      using st by (cases st) (simp_all add: Reported Let_def)
    show ?thesis
      unfolding step
      using Cons.IH [OF rest Cons.prems(2), of "child_state_changed st ?s1"]
      by (simp add: Reported emit_conv replicate_app_Cons_same notified_Cons
          child_state_changed_conv disj_assoc)
  qed
qed

lemma launch_started:
  assumes "cmds \<noteq> []"
    and "\<forall>i < length cmds - 1. 0 \<le> pipe_ret os i"
    and "\<forall>i < length cmds. 0 < fork_ret os i"
  shows "launch os cmds background raw s =
     (if background then
        Some (Returned 0
          (emit (Cout (started_notice (next_jid s) (fork_ret os 0)))
             (push_job RUNNING (fork_ret os 0) raw (launched os (length cmds) s))))
      else
        map_option (\<lambda>s3. Returned 0 (emit Tcgetattr (emit (Tcsetpgrp (shell_pgid s3)) s3)))
          (wait_foreground (group_wait os) (fork_ret os 0) raw
             (emit (Tcsetpgrp (fork_ret os 0)) (launched os (length cmds) s))))"
proof -
  let ?n = "length cmds"
  let ?s1 = "s\<lparr>effects := effects s @ replicate (?n - Suc 0) Pipe\<rparr>"
  have n: "0 < ?n" using assms(1) by simp
  have pipes: "create_pipes os 0 (?n - Suc 0) s = Inr ?s1"
    using create_pipes_ok [of 0 "?n - 1" os s] assms(2) by simp
  have forks: "fork_stages os 0 ?n 0 [] ?s1 =
      Forked (fork_ret os 0) (map (fork_ret os) [0..<?n]) (launched os ?n s)"
    using fork_stages_all [OF n assms(3), of ?s1]
    by (simp add: launched_def)
  have g: "fork_ret os 0 \<noteq> 0" using assms(3) n by auto
  show ?thesis
    using g by (simp add: launch_def pipes forks Let_def launched_def)
qed

lemma runPipeline_launch:
  "cmds \<noteq> [] \<Longrightarrow> \<not> inline_builtin cmds background \<Longrightarrow>
   runPipeline os cmds background raw s = launch os cmds background raw s"
  by (auto simp: runPipeline_def inline_builtin_def Let_def)

lemma new_effects_append [simp]:
  "effects s' = effects s @ es \<Longrightarrow> new_effects s s' = es"
  by (simp add: new_effects_def)

lemma filter_fork_effects_tc [simp]: "filter is_tcsetpgrp (fork_effects os n) = []"
  by (induction n) (simp_all add: fork_effects_def is_tcsetpgrp_def)

lemma filter_fork_effects_wait [simp]: "filter is_blocking_wait (fork_effects os n) = []"
  by (induction n) (simp_all add: fork_effects_def is_blocking_wait_def)

lemma filter_replicate_False: "\<not> P x \<Longrightarrow> filter P (replicate k x) = []"
  by (induction k) simp_all

lemma digit_char_in: "d < 10 \<Longrightarrow> digit_char d \<in> set ''0123456789''"
  unfolding digit_char_def by (rule nth_mem) simp

lemma show_nat_digits: "set (show_nat n) \<subseteq> set ''0123456789''"
proof (induction n rule: show_nat.induct)
  case (1 n)
  show ?case
  proof (cases "n < 10")
    case True
    then show ?thesis
      using digit_char_in [of n] by (subst show_nat.simps) simp
  next
    case False
    have "digit_char (n mod 10) \<in> set ''0123456789''"
      by (rule digit_char_in) simp
    with False 1 show ?thesis
      by (subst show_nat.simps) simp
  qed
qed

lemma newline_not_in_show_int: "CHR ''\<newline>'' \<notin> set (show_int i)"
  using show_nat_digits [of "nat i"] show_nat_digits [of "nat (- i)"]
  by (auto simp: show_int_def)

lemma count_list_append: "count_list (xs @ ys) x = count_list xs x + count_list ys x"
  by (induction xs) simp_all

lemma count_list_0: "x \<notin> set xs \<Longrightarrow> count_list xs x = 0"
  by (induction xs) auto

lemma started_notice_one_line:
  "count_list (started_notice n g) CHR ''\<newline>'' = 1 \<and> last (started_notice n g) = CHR ''\<newline>''"
  using newline_not_in_show_int [of n] newline_not_in_show_int [of g]
  by (simp add: started_notice_def count_list_append count_list_0)


lemma launched_fields [simp]:
  "jobs (launched os n s) = jobs s" "next_jid (launched os n s) = next_jid s"
  "child_terminated (launched os n s) = child_terminated s"
  "shell_pgid (launched os n s) = shell_pgid s"
  "effects (launched os n s) = effects s @ replicate (n - 1) Pipe @ fork_effects os n"
  by (simp_all add: launched_def)

lemma table_ok_push:
  assumes "table_ok s" and "jobs s' = jobs s @ [\<lparr>jid = next_jid s, pgid = g, cmd = raw, status = st\<rparr>]"
    and "next_jid s' = next_jid s + 1"
  shows "next_jid s \<notin> jid ` set (jobs s) \<and> table_ok s'"
  using assms by (fastforce simp: table_ok_def sorted_wrt_append)

text \<open>
  Claim C2. A pipeline that is launched in the background (every \<open>pipe\<close> and every
  \<open>fork\<close> of the launch succeeds) returns 0 with exactly one new entry at the end of the
  table: its id is the counter, its group is the pid of the first child, its status is
  \<open>RUNNING\<close>. The only output is the one-line notice \<open>[id] group Started\<close>. No
  blocking wait is made: none is among the new effects, and the result is the same
  whatever the answers \<open>ws\<close> of \<open>waitpid\<close> would be, even with none at all.
\<close>

theorem background_launch:
  assumes "cmds \<noteq> []"
    and "\<forall>i < length cmds - 1. 0 \<le> pipe_ret os i"
    and "\<forall>i < length cmds. 0 < fork_ret os i"
  shows "\<exists>s'. runPipeline os cmds True raw s = Some (Returned 0 s') \<and>
      runPipeline (os\<lparr>group_wait := ws\<rparr>) cmds True raw s = Some (Returned 0 s') \<and>
      jobs s' = jobs s @ [\<lparr>jid = next_jid s, pgid = fork_ret os 0, cmd = raw, status = RUNNING\<rparr>] \<and>
      next_jid s' = next_jid s + 1 \<and>
      new_effects s s' =
        replicate (length cmds - 1) Pipe @ fork_effects os (length cmds) @
        [Cout (''['' @ show_int (next_jid s) @ ''] '' @ show_int (fork_ret os 0) @ '' Started\<newline>'')] \<and>
      filter is_blocking_wait (new_effects s s') = [] \<and>
      count_list (''['' @ show_int (next_jid s) @ ''] '' @ show_int (fork_ret os 0) @ '' Started\<newline>'')
        CHR ''\<newline>'' = 1"
proof -
  let ?s' = "emit (Cout (started_notice (next_jid s) (fork_ret os 0)))
               (push_job RUNNING (fork_ret os 0) raw (launched os (length cmds) s))"
  have nb: "\<not> inline_builtin cmds True" by (simp add: inline_builtin_def)
  have run: "runPipeline os' cmds True raw s = launch os' cmds True raw s" for os'
    by (rule runPipeline_launch [OF assms(1) nb])
  have l1: "launch os cmds True raw s = Some (Returned 0 ?s')"
    using launch_started [OF assms, of True raw s] by simp
  have l2: "launch (os\<lparr>group_wait := ws\<rparr>) cmds True raw s = Some (Returned 0 ?s')"
    using launch_started [of cmds "os\<lparr>group_wait := ws\<rparr>" True raw s] assms
    by (simp add: launched_def fork_effects_def)
  have eff: "effects ?s' = effects s @ replicate (length cmds - 1) Pipe @
      fork_effects os (length cmds) @
      [Cout (''['' @ show_int (next_jid s) @ ''] '' @ show_int (fork_ret os 0) @ '' Started\<newline>'')]"
    by (simp add: push_job_def started_notice_def)
  have new: "new_effects s ?s' = replicate (length cmds - 1) Pipe @
      fork_effects os (length cmds) @
      [Cout (''['' @ show_int (next_jid s) @ ''] '' @ show_int (fork_ret os 0) @ '' Started\<newline>'')]"
    by (rule new_effects_append [OF eff])
  have nowait: "filter is_blocking_wait (new_effects s ?s') = []"
    unfolding new by (simp add: filter_replicate_False is_blocking_wait_def)
  have line: "count_list (''['' @ show_int (next_jid s) @ ''] '' @ show_int (fork_ret os 0) @ '' Started\<newline>'')
      CHR ''\<newline>'' = 1"
    using started_notice_one_line [of "next_jid s" "fork_ret os 0"]
    by (simp add: started_notice_def)
  have tab: "jobs ?s' = jobs s @ [\<lparr>jid = next_jid s, pgid = fork_ret os 0, cmd = raw, status = RUNNING\<rparr>]
      \<and> next_jid ?s' = next_jid s + 1"
    by (simp add: push_job_def)
  show ?thesis
    using run [of os] run [of "os\<lparr>group_wait := ws\<rparr>"] l1 l2 new nowait line tab
    by (intro exI [of _ ?s']) (simp only: simp_thms)
qed

text \<open>
  Claim C1. A foreground pipeline that has been launched hands the terminal to the
  group and waits. Let the answers \<open>pre\<close> of \<open>waitpid\<close> all keep the loop waiting.
  If the next answer reports a stopped member, the call returns with exactly one new
  entry with status \<open>STOPPED\<close> whose id is the counter (an id that no entry has when
  the table is in order), one stopped notice, and no further wait: the stop report is the
  last answer read, so the answers \<open>later\<close> (the remaining members) are not collected.
  If the next answer is an error other than \<open>EINTR\<close> (\<open>ECHILD\<close> when all members
  are gone), the call returns with the table unchanged. On either path the calls of
  \<open>tcsetpgrp\<close> are exactly two: the handover to the group, and one return of the
  terminal to the shell's group.
\<close>

theorem foreground_wait_stop_and_restore:
  assumes "cmds \<noteq> []" and "\<not> inline_builtin cmds False"
    and "\<forall>i < length cmds - 1. 0 \<le> pipe_ret os i"
    and "\<forall>i < length cmds. 0 < fork_ret os i"
    and "\<forall>w \<in> set pre. keeps_waiting w"
    and "e \<noteq> EINTR"
  shows
    "(\<exists>s'. runPipeline (os\<lparr>group_wait := pre @ Reported p (Stopped n) # later\<rparr>) cmds False raw s
              = Some (Returned 0 s') \<and>
        jobs s' = jobs s @ [\<lparr>jid = next_jid s, pgid = fork_ret os 0, cmd = raw, status = STOPPED\<rparr>] \<and>
        next_jid s' = next_jid s + 1 \<and>
        new_effects s s' =
          replicate (length cmds - 1) Pipe @ fork_effects os (length cmds) @
          [Tcsetpgrp (fork_ret os 0)] @
          replicate (Suc (length pre)) (Waitpid (- fork_ret os 0) [WUNTRACED]) @
          [Cout (stopped_notice (next_jid s) (fork_ret os 0) raw),
           Tcsetpgrp (shell_pgid s), Tcgetattr] \<and>
        filter is_tcsetpgrp (new_effects s s') = [Tcsetpgrp (fork_ret os 0), Tcsetpgrp (shell_pgid s)] \<and>
        (table_ok s \<longrightarrow> next_jid s \<notin> jid ` set (jobs s) \<and> table_ok s')) \<and>
     (\<exists>s'. runPipeline (os\<lparr>group_wait := pre @ Failed e # later\<rparr>) cmds False raw s
              = Some (Returned 0 s') \<and>
        jobs s' = jobs s \<and> next_jid s' = next_jid s \<and>
        new_effects s s' =
          replicate (length cmds - 1) Pipe @ fork_effects os (length cmds) @
          [Tcsetpgrp (fork_ret os 0)] @
          replicate (Suc (length pre)) (Waitpid (- fork_ret os 0) [WUNTRACED]) @
          [Tcsetpgrp (shell_pgid s), Tcgetattr] \<and>
        filter is_tcsetpgrp (new_effects s s') = [Tcsetpgrp (fork_ret os 0), Tcsetpgrp (shell_pgid s)])"
proof -
  let ?g = "fork_ret os 0"
  let ?L = "launched os (length cmds) s"
  let ?W = "replicate (Suc (length pre)) (Waitpid (- ?g) [WUNTRACED])"
  let ?base = "replicate (length cmds - 1) Pipe @ fork_effects os (length cmds)"
  have notc: "filter is_tcsetpgrp (replicate k x) = []" if "\<not> is_tcsetpgrp x" for k x
    using that by (rule filter_replicate_False)
  have run: "runPipeline os' cmds False raw s = launch os' cmds False raw s" for os'
    by (rule runPipeline_launch [OF assms(1,2)])
  have launch: "launch (os\<lparr>group_wait := ws\<rparr>) cmds False raw s =
      map_option (\<lambda>s3. Returned 0 (emit Tcgetattr (emit (Tcsetpgrp (shell_pgid s3)) s3)))
        (wait_foreground ws ?g raw (emit (Tcsetpgrp ?g) ?L))" for ws
    using launch_started [of cmds "os\<lparr>group_wait := ws\<rparr>" False raw s] assms(1,3,4)
    by (simp add: launched_def fork_effects_def)
  let ?s1 = "?L\<lparr>jobs := jobs s @ [\<lparr>jid = next_jid s, pgid = ?g, cmd = raw, status = STOPPED\<rparr>],
      next_jid := next_jid s + 1,
      child_terminated := child_terminated s \<or> notified pre,
      effects := effects s @ ?base @ [Tcsetpgrp ?g] @ ?W @
        [Cout (stopped_notice (next_jid s) ?g raw), Tcsetpgrp (shell_pgid s), Tcgetattr]\<rparr>"
  have stop: "runPipeline (os\<lparr>group_wait := pre @ Reported p (Stopped n) # later\<rparr>) cmds False raw s
      = Some (Returned 0 ?s1)"
    unfolding run launch
    using wait_foreground_stop [OF assms(5), of p n later ?g raw "emit (Tcsetpgrp ?g) ?L"]
    by (simp add: emit_conv)
  have eff1: "effects ?s1 = effects s @ (?base @ [Tcsetpgrp ?g] @ ?W @
      [Cout (stopped_notice (next_jid s) ?g raw), Tcsetpgrp (shell_pgid s), Tcgetattr])"
    by simp
  have new1: "new_effects s ?s1 = ?base @ [Tcsetpgrp ?g] @ ?W @
      [Cout (stopped_notice (next_jid s) ?g raw), Tcsetpgrp (shell_pgid s), Tcgetattr]"
    by (rule new_effects_append [OF eff1])
  have tc1: "filter is_tcsetpgrp (new_effects s ?s1) = [Tcsetpgrp ?g, Tcsetpgrp (shell_pgid s)]"
    unfolding new1 by (simp add: notc) (simp add: is_tcsetpgrp_def)
  have tab1: "jobs ?s1 = jobs s @ [\<lparr>jid = next_jid s, pgid = ?g, cmd = raw, status = STOPPED\<rparr>]"
      "next_jid ?s1 = next_jid s + 1"
    by simp_all
  have fresh: "table_ok s \<longrightarrow> next_jid s \<notin> jid ` set (jobs s) \<and> table_ok ?s1"
    using table_ok_push [OF _ tab1] by blast
  let ?s2 = "?L\<lparr>child_terminated := child_terminated s \<or> notified pre,
      effects := effects s @ ?base @ [Tcsetpgrp ?g] @ ?W @
        [Tcsetpgrp (shell_pgid s), Tcgetattr]\<rparr>"
  have fail: "runPipeline (os\<lparr>group_wait := pre @ Failed e # later\<rparr>) cmds False raw s
      = Some (Returned 0 ?s2)"
    unfolding run launch
    using wait_foreground_fail [OF assms(5,6), of later ?g raw "emit (Tcsetpgrp ?g) ?L"]
    by (simp add: emit_conv)
  have eff2: "effects ?s2 = effects s @ (?base @ [Tcsetpgrp ?g] @ ?W @
      [Tcsetpgrp (shell_pgid s), Tcgetattr])"
    by simp
  have new2: "new_effects s ?s2 = ?base @ [Tcsetpgrp ?g] @ ?W @
      [Tcsetpgrp (shell_pgid s), Tcgetattr]"
    by (rule new_effects_append [OF eff2])
  have tc2: "filter is_tcsetpgrp (new_effects s ?s2) = [Tcsetpgrp ?g, Tcsetpgrp (shell_pgid s)]"
    unfolding new2 by (simp add: notc) (simp add: is_tcsetpgrp_def)
  have tab2: "jobs ?s2 = jobs s" "next_jid ?s2 = next_jid s"
    by simp_all
  have first: "\<exists>s'. runPipeline (os\<lparr>group_wait := pre @ Reported p (Stopped n) # later\<rparr>) cmds False raw s
              = Some (Returned 0 s') \<and>
        jobs s' = jobs s @ [\<lparr>jid = next_jid s, pgid = ?g, cmd = raw, status = STOPPED\<rparr>] \<and>
        next_jid s' = next_jid s + 1 \<and>
        new_effects s s' = ?base @ [Tcsetpgrp ?g] @ ?W @
          [Cout (stopped_notice (next_jid s) ?g raw), Tcsetpgrp (shell_pgid s), Tcgetattr] \<and>
        filter is_tcsetpgrp (new_effects s s') = [Tcsetpgrp ?g, Tcsetpgrp (shell_pgid s)] \<and>
        (table_ok s \<longrightarrow> next_jid s \<notin> jid ` set (jobs s) \<and> table_ok s')"
    using stop tab1 new1 tc1 fresh by (intro exI [of _ ?s1]) blast
  have second: "\<exists>s'. runPipeline (os\<lparr>group_wait := pre @ Failed e # later\<rparr>) cmds False raw s
              = Some (Returned 0 s') \<and>
        jobs s' = jobs s \<and> next_jid s' = next_jid s \<and>
        new_effects s s' = ?base @ [Tcsetpgrp ?g] @ ?W @ [Tcsetpgrp (shell_pgid s), Tcgetattr] \<and>
        filter is_tcsetpgrp (new_effects s s') = [Tcsetpgrp ?g, Tcsetpgrp (shell_pgid s)]"
    using fail tab2 new2 tc2 by (intro exI [of _ ?s2]) blast
  show ?thesis
    using first second unfolding append_assoc by blast
qed


theorem background_launch_witness:
  "[sample_stage [''sleep'', ''5'']] \<noteq> [] \<and>
   length [sample_stage [''sleep'', ''5'']] - 1 = 0 \<and>
   length [sample_stage [''sleep'', ''5'']] = 1 \<and> 0 < fork_ret sample_os 0 \<and>
   runPipeline sample_os [sample_stage [''sleep'', ''5'']] True ''sleep 5 '' (main_init 50) =
     Some (Returned 0
       \<lparr>jobs = [\<lparr>jid = 1, pgid = 100, cmd = ''sleep 5 '', status = RUNNING\<rparr>],
        next_jid = 2, child_terminated = False, shell_pgid = 50,
        effects = [Setpgid 50 50, Tcsetpgrp 50, Tcgetattr, Fork, Setpgid 100 100,
                   Cout ''[1] 100 Started\<newline>'']\<rparr>) \<and>
   (\<exists>s'. runPipeline (sample_os\<lparr>group_wait := []\<rparr>) [sample_stage [''sleep'', ''5'']] True
            ''sleep 5 '' (main_init 50) = Some (Returned 0 s') \<and>
      filter is_blocking_wait (new_effects (main_init 50) s') = [])"
proof -
  have h1: "[sample_stage [''sleep'', ''5'']] \<noteq> []" by simp
  have h2: "\<forall>i < length [sample_stage [''sleep'', ''5'']] - 1. 0 \<le> pipe_ret sample_os i"
    by simp
  have h3: "\<forall>i < length [sample_stage [''sleep'', ''5'']]. 0 < fork_ret sample_os i"
    by (simp add: sample_os_def)
  have run: "runPipeline sample_os [sample_stage [''sleep'', ''5'']] True ''sleep 5 '' (main_init 50) =
     Some (Returned 0
       \<lparr>jobs = [\<lparr>jid = 1, pgid = 100, cmd = ''sleep 5 '', status = RUNNING\<rparr>],
        next_jid = 2, child_terminated = False, shell_pgid = 50,
        effects = [Setpgid 50 50, Tcsetpgrp 50, Tcgetattr, Fork, Setpgid 100 100,
                   Cout ''[1] 100 Started\<newline>'']\<rparr>)"
    by code_simp
  have h4: "length [sample_stage [''sleep'', ''5'']] - 1 = 0 \<and>
      length [sample_stage [''sleep'', ''5'']] = 1 \<and> 0 < fork_ret sample_os 0"
    by (simp add: sample_os_def)
  show ?thesis
    using background_launch [OF h1 h2 h3, where ws = "[]" and raw = "''sleep 5 ''" and s = "main_init 50"] h1 h4 run
    by blast
qed

theorem foreground_wait_stop_and_restore_witness:
  "[sample_stage [''cat''], sample_stage [''wc'']] \<noteq> [] \<and>
   \<not> inline_builtin [sample_stage [''cat''], sample_stage [''wc'']] False \<and>
   length [sample_stage [''cat''], sample_stage [''wc'']] = 2 \<and>
   0 \<le> pipe_ret sample_os 0 \<and> 0 < fork_ret sample_os 0 \<and> 0 < fork_ret sample_os 1 \<and>
   keeps_waiting (Reported 100 (Exited 0)) \<and> keeps_waiting (Failed EINTR) \<and>
   ECHILD \<noteq> EINTR \<and> table_ok (main_init 50) \<and>
   runPipeline sample_os [sample_stage [''cat''], sample_stage [''wc'']] False ''cat | wc''
       (main_init 50) =
     Some (Returned 0
       \<lparr>jobs = [\<lparr>jid = 1, pgid = 100, cmd = ''cat | wc'', status = STOPPED\<rparr>],
        next_jid = 2, child_terminated = True, shell_pgid = 50,
        effects = [Setpgid 50 50, Tcsetpgrp 50, Tcgetattr, Pipe, Fork, Setpgid 100 100,
                   Fork, Setpgid 101 100, Tcsetpgrp 100,
                   Waitpid (- 100) [WUNTRACED], Waitpid (- 100) [WUNTRACED],
                   Waitpid (- 100) [WUNTRACED],
                   Cout ''\<newline>[1] 100 Stopped    cat | wc\<newline>'', Tcsetpgrp 50, Tcgetattr]\<rparr>) \<and>
   (\<exists>s'. runPipeline
            (sample_os\<lparr>group_wait :=
               [Reported 100 (Exited 0), Failed EINTR] @ Reported 101 (Stopped 20) # []\<rparr>)
            [sample_stage [''cat''], sample_stage [''wc'']] False ''cat | wc'' (main_init 50)
            = Some (Returned 0 s') \<and>
      jobs s' = [] @ [\<lparr>jid = 1, pgid = 100, cmd = ''cat | wc'', status = STOPPED\<rparr>] \<and>
      filter is_tcsetpgrp (new_effects (main_init 50) s') = [Tcsetpgrp 100, Tcsetpgrp 50] \<and>
      table_ok s') \<and>
   (\<exists>s'. runPipeline
            (sample_os\<lparr>group_wait := [Reported 100 (Exited 0), Failed EINTR] @ Failed ECHILD # []\<rparr>)
            [sample_stage [''cat''], sample_stage [''wc'']] False ''cat | wc'' (main_init 50)
            = Some (Returned 0 s') \<and>
      jobs s' = [] \<and>
      filter is_tcsetpgrp (new_effects (main_init 50) s') = [Tcsetpgrp 100, Tcsetpgrp 50])"
proof -
  let ?cmds = "[sample_stage [''cat''], sample_stage [''wc'']]"
  have h1: "?cmds \<noteq> []" by simp
  have h2: "\<not> inline_builtin ?cmds False" by (simp add: inline_builtin_def)
  have h3: "\<forall>i < length ?cmds - 1. 0 \<le> pipe_ret sample_os i" by (simp add: sample_os_def)
  have h4: "\<forall>i < length ?cmds. 0 < fork_ret sample_os i" by (simp add: sample_os_def)
  have h5: "\<forall>w \<in> set [Reported 100 (Exited 0), Failed EINTR]. keeps_waiting w"
    by (simp add: keeps_waiting_def)
  have h6: "ECHILD \<noteq> EINTR" by simp
  have ok: "table_ok (main_init 50)" by (simp add: table_ok_def main_init_def)
  have run: "runPipeline sample_os ?cmds False ''cat | wc'' (main_init 50) =
     Some (Returned 0
       \<lparr>jobs = [\<lparr>jid = 1, pgid = 100, cmd = ''cat | wc'', status = STOPPED\<rparr>],
        next_jid = 2, child_terminated = True, shell_pgid = 50,
        effects = [Setpgid 50 50, Tcsetpgrp 50, Tcgetattr, Pipe, Fork, Setpgid 100 100,
                   Fork, Setpgid 101 100, Tcsetpgrp 100,
                   Waitpid (- 100) [WUNTRACED], Waitpid (- 100) [WUNTRACED],
                   Waitpid (- 100) [WUNTRACED],
                   Cout ''\<newline>[1] 100 Stopped    cat | wc\<newline>'', Tcsetpgrp 50, Tcgetattr]\<rparr>)"
    by code_simp
  have f0: "fork_ret sample_os 0 = 100" "shell_pgid (main_init 50) = 50" "jobs (main_init 50) = []"
      "next_jid (main_init 50) = 1"
    by (simp_all add: sample_os_def main_init_def)
  have h7: "length ?cmds = 2 \<and> 0 \<le> pipe_ret sample_os 0 \<and> 0 < fork_ret sample_os 0 \<and>
      0 < fork_ret sample_os 1 \<and> keeps_waiting (Reported 100 (Exited 0)) \<and>
      keeps_waiting (Failed EINTR)"
    by (simp add: sample_os_def keeps_waiting_def)
  show ?thesis
    using foreground_wait_stop_and_restore [OF h1 h2 h3 h4 h5 h6, where p = 101 and n = 20
        and later = "[]" and raw = "''cat | wc''" and s = "main_init 50"]
      h1 h2 h6 h7 ok run
    unfolding f0 by blast
qed

lemma group_of_mem: "group_of es p = Some g \<Longrightarrow> Setpgid p g \<in> set es"
proof (induction es)
  case Nil
  then show ?case by simp
next
  case (Cons e es)
  show ?case
  proof (cases "group_of es p")
    case None
    with Cons.prems show ?thesis
      by (cases e) (simp_all split: if_splits)
  next
    case (Some x)
    with Cons show ?thesis by simp
  qed
qed

lemma group_of_uniform:
  "Setpgid p g \<in> set es \<Longrightarrow> (\<forall>q g'. Setpgid q g' \<in> set es \<longrightarrow> g' = g) \<Longrightarrow>
   group_of es p = Some g"
proof (induction es)
  case Nil
  then show ?case by simp
next
  case (Cons e es)
  show ?case
  proof (cases "group_of es p")
    case None
    have uni: "\<forall>q g'. Setpgid q g' \<in> set es \<longrightarrow> g' = g"
      using Cons.prems(2) by simp
    have "Setpgid p g \<notin> set es"
    proof
      assume "Setpgid p g \<in> set es"
      then have "group_of es p = Some g" using uni by (rule Cons.IH)
      then show False using None by simp
    qed
    then have "e = Setpgid p g" using Cons.prems(1) by simp
    then show ?thesis using None by simp
  next
    case (Some x)
    then have "Setpgid p x \<in> set es" by (rule group_of_mem)
    then have "x = g" using Cons.prems(2) by simp
    then show ?thesis using Some by simp
  qed
qed

lemma signalled_from_intro:
  "signal_reaches (before @ es1) t p \<Longrightarrow> signalled_from before (es1 @ Kill t sg # es2) sg p"
  by (induction es1 arbitrary: before) simp_all

lemma fork_effects_Suc:
  "fork_effects os (Suc k) = fork_effects os k @ [Fork, Setpgid (fork_ret os k) (fork_ret os 0)]"
  by (simp add: fork_effects_def)

lemma set_fork_effects:
  "set (fork_effects os k) =
   (if k = 0 then {} else {Fork}) \<union> (\<lambda>i. Setpgid (fork_ret os i) (fork_ret os 0)) ` {..<k}"
proof (induction k)
  case 0
  show ?case by (simp add: fork_effects_def)
next
  case (Suc k)
  show ?case
    unfolding fork_effects_Suc set_append Suc lessThan_Suc by auto
qed

lemma siblings_signalled:
  assumes i: "i < k" and pos: "0 < fork_ret os 0"
  shows "signalled
     (replicate m Pipe @ fork_effects os k @ [Fork, Perror ''fork''] @
      map (\<lambda>j. Kill (- fork_ret os j) SIGTERM) [0..<k]) SIGTERM (fork_ret os i)"
proof -
  let ?g = "fork_ret os 0"
  let ?before = "replicate m Pipe @ fork_effects os k @ [Fork, Perror ''fork'']"
  obtain k' where k: "k = Suc k'" using i by (cases k) auto
  have kills: "map (\<lambda>j. Kill (- fork_ret os j) SIGTERM) [0..<k] =
      Kill (- ?g) SIGTERM # map (\<lambda>j. Kill (- fork_ret os j) SIGTERM) [Suc 0..<k]"
    unfolding k by (simp add: upt_conv_Cons del: upt_Suc)
  have mem: "Setpgid (fork_ret os i) ?g \<in> set ?before"
    using i by (auto simp: set_fork_effects)
  have uni: "\<forall>q g'. Setpgid q g' \<in> set ?before \<longrightarrow> g' = ?g"
    by (auto simp: set_fork_effects split: if_splits)
  have grp: "group_of ?before (fork_ret os i) = Some ?g"
    by (rule group_of_uniform [OF mem uni])
  have reach: "signal_reaches ([] @ ?before) (- ?g) (fork_ret os i)"
    using grp pos by (simp add: signal_reaches_def)
  have "signalled_from [] (?before @ Kill (- ?g) SIGTERM #
      map (\<lambda>j. Kill (- fork_ret os j) SIGTERM) [Suc 0..<k]) SIGTERM (fork_ret os i)"
    by (rule signalled_from_intro [OF reach])
  then show ?thesis
    unfolding signalled_def kills by simp
qed

lemma launch_pipe_failure:
  assumes "m < length cmds - 1" and "\<forall>i<m. 0 \<le> pipe_ret os i" and "pipe_ret os m < 0"
  shows "launch os cmds background raw s =
     Some (Returned (- 1) (s\<lparr>effects := effects s @ replicate (Suc m) Pipe @ [Perror ''pipe'']\<rparr>))"
proof -
  have "create_pipes os 0 (length cmds - Suc 0) s =
      Inl (s\<lparr>effects := effects s @ replicate (Suc m) Pipe @ [Perror ''pipe'']\<rparr>)"
    using create_pipes_fail [of 0 m os "length cmds - 1" s] assms by simp
  then show ?thesis by (simp add: launch_def)
qed

lemma launch_fork_failure:
  assumes "\<forall>i < length cmds - 1. 0 \<le> pipe_ret os i"
    and "k < length cmds" and "\<forall>i<k. 0 < fork_ret os i" and "fork_ret os k < 0"
  shows "launch os cmds background raw s =
     Some (Returned (- 1)
       (s\<lparr>effects := effects s @ replicate (length cmds - 1) Pipe @ fork_effects os k @
            [Fork, Perror ''fork''] @ map (\<lambda>i. Kill (- fork_ret os i) SIGTERM) [0..<k]\<rparr>))"
proof -
  let ?s1 = "s\<lparr>effects := effects s @ replicate (length cmds - Suc 0) Pipe\<rparr>"
  have pipes: "create_pipes os 0 (length cmds - Suc 0) s = Inr ?s1"
    using create_pipes_ok [of 0 "length cmds - 1" os s] assms(1) by simp
  have forks: "fork_stages os 0 (length cmds) 0 [] ?s1 =
      ForkFailed (?s1\<lparr>effects := effects ?s1 @ fork_effects os k @ [Fork, Perror ''fork''] @
            map (\<lambda>c. Kill (- c) SIGTERM) (map (fork_ret os) [0..<k])\<rparr>)"
    by (rule fork_stages_fails_at [OF assms(2,3,4)])
  show ?thesis
    by (simp add: launch_def pipes forks Let_def comp_def)
qed

text \<open>
  Claim C9. A launch that is not answered inside the shell and in which a \<open>pipe\<close> or
  a \<open>fork\<close> fails is given up: \<open>runPipeline\<close> returns -1, the table is unchanged, and
  nothing more is started. When the \<open>pipe\<close> number \<open>m\<close> fails, the diagnostic names
  \<open>pipe\<close>; no process has been created at that point. When the \<open>fork\<close> for stage \<open>k\<close>
  fails, the diagnostic names \<open>fork\<close>, and a \<open>kill(-c, SIGTERM)\<close> is made for each of
  the \<open>k\<close> children \<open>c\<close> created before; the first of these calls addresses the group of
  the pipeline, in which the parent has put every one of them, so each child created so
  far is sent the termination signal.
\<close>

theorem launch_failure_cleanup:
  assumes "cmds \<noteq> []" and "\<not> inline_builtin cmds background"
  shows
    "(m < length cmds - 1 \<and> (\<forall>i<m. 0 \<le> pipe_ret osp i) \<and> pipe_ret osp m < 0 \<longrightarrow>
        (\<exists>s'. runPipeline osp cmds background raw s = Some (Returned (- 1) s') \<and>
           jobs s' = jobs s \<and> next_jid s' = next_jid s \<and>
           new_effects s s' = replicate (Suc m) Pipe @ [Perror ''pipe''])) \<and>
     ((\<forall>i < length cmds - 1. 0 \<le> pipe_ret os i) \<and> k < length cmds \<and>
      (\<forall>i<k. 0 < fork_ret os i) \<and> fork_ret os k < 0 \<longrightarrow>
        (\<exists>s'. runPipeline os cmds background raw s = Some (Returned (- 1) s') \<and>
           jobs s' = jobs s \<and> next_jid s' = next_jid s \<and>
           new_effects s s' =
             replicate (length cmds - 1) Pipe @ fork_effects os k @ [Fork, Perror ''fork''] @
             map (\<lambda>i. Kill (- fork_ret os i) SIGTERM) [0..<k] \<and>
           (\<forall>i<k. signalled (new_effects s s') SIGTERM (fork_ret os i))))"
proof -
  have run: "runPipeline os' cmds background raw s = launch os' cmds background raw s" for os'
    by (rule runPipeline_launch [OF assms])
  have pipe_part: "\<exists>s'. runPipeline osp cmds background raw s = Some (Returned (- 1) s') \<and>
           jobs s' = jobs s \<and> next_jid s' = next_jid s \<and>
           new_effects s s' = replicate (Suc m) Pipe @ [Perror ''pipe'']"
    if "m < length cmds - 1" "\<forall>i<m. 0 \<le> pipe_ret osp i" "pipe_ret osp m < 0"
  proof -
    let ?s' = "s\<lparr>effects := effects s @ replicate (Suc m) Pipe @ [Perror ''pipe'']\<rparr>"
    have "runPipeline osp cmds background raw s = Some (Returned (- 1) ?s')"
      unfolding run by (rule launch_pipe_failure [OF that])
    moreover have "new_effects s ?s' = replicate (Suc m) Pipe @ [Perror ''pipe'']"
      by (rule new_effects_append) simp
    ultimately show ?thesis
      by (intro exI [of _ ?s']) simp
  qed
  have fork_part: "\<exists>s'. runPipeline os cmds background raw s = Some (Returned (- 1) s') \<and>
           jobs s' = jobs s \<and> next_jid s' = next_jid s \<and>
           new_effects s s' =
             replicate (length cmds - 1) Pipe @ fork_effects os k @ [Fork, Perror ''fork''] @
             map (\<lambda>i. Kill (- fork_ret os i) SIGTERM) [0..<k] \<and>
           (\<forall>i<k. signalled (new_effects s s') SIGTERM (fork_ret os i))"
    if h: "\<forall>i < length cmds - 1. 0 \<le> pipe_ret os i" "k < length cmds"
      "\<forall>i<k. 0 < fork_ret os i" "fork_ret os k < 0"
  proof -
    let ?es = "replicate (length cmds - 1) Pipe @ fork_effects os k @ [Fork, Perror ''fork''] @
             map (\<lambda>i. Kill (- fork_ret os i) SIGTERM) [0..<k]"
    let ?s' = "s\<lparr>effects := effects s @ ?es\<rparr>"
    have r: "runPipeline os cmds background raw s = Some (Returned (- 1) ?s')"
      unfolding run by (rule launch_fork_failure [OF h])
    have new: "new_effects s ?s' = ?es"
      by (rule new_effects_append) simp
    have sig: "signalled ?es SIGTERM (fork_ret os i)" if "i < k" for i
    proof -
      have "0 < fork_ret os 0" using h(3) that by auto
      then show ?thesis by (rule siblings_signalled [OF that])
    qed
    show ?thesis
      using r new sig by (intro exI [of _ ?s']) simp
  qed
  from pipe_part fork_part show ?thesis by blast
qed


theorem launch_failure_cleanup_witness:
  "[sample_stage [''a''], sample_stage [''b''], sample_stage [''c'']] \<noteq> [] \<and>
   \<not> inline_builtin [sample_stage [''a''], sample_stage [''b''], sample_stage [''c'']] False \<and>
   length [sample_stage [''a''], sample_stage [''b''], sample_stage [''c'']] = 3 \<and>
   (0 \<le> pipe_ret (sample_os\<lparr>pipe_ret := (\<lambda>i. if i = 1 then - 1 else 0)\<rparr>) 0 \<and>
    pipe_ret (sample_os\<lparr>pipe_ret := (\<lambda>i. if i = 1 then - 1 else 0)\<rparr>) 1 < 0) \<and>
   (0 \<le> pipe_ret (sample_os\<lparr>fork_ret := (\<lambda>i. if i = 2 then - 1 else 100 + int i)\<rparr>) 0 \<and>
    0 \<le> pipe_ret (sample_os\<lparr>fork_ret := (\<lambda>i. if i = 2 then - 1 else 100 + int i)\<rparr>) 1 \<and>
    0 < fork_ret (sample_os\<lparr>fork_ret := (\<lambda>i. if i = 2 then - 1 else 100 + int i)\<rparr>) 0 \<and>
    0 < fork_ret (sample_os\<lparr>fork_ret := (\<lambda>i. if i = 2 then - 1 else 100 + int i)\<rparr>) 1 \<and>
    fork_ret (sample_os\<lparr>fork_ret := (\<lambda>i. if i = 2 then - 1 else 100 + int i)\<rparr>) 2 < 0) \<and>
   runPipeline (sample_os\<lparr>pipe_ret := (\<lambda>i. if i = 1 then - 1 else 0)\<rparr>)
       [sample_stage [''a''], sample_stage [''b''], sample_stage [''c'']] False ''a | b | c''
       (main_init 50) =
     Some (Returned (- 1)
       \<lparr>jobs = [], next_jid = 1, child_terminated = False, shell_pgid = 50,
        effects = [Setpgid 50 50, Tcsetpgrp 50, Tcgetattr, Pipe, Pipe, Perror ''pipe'']\<rparr>) \<and>
   runPipeline (sample_os\<lparr>fork_ret := (\<lambda>i. if i = 2 then - 1 else 100 + int i)\<rparr>)
       [sample_stage [''a''], sample_stage [''b''], sample_stage [''c'']] False ''a | b | c''
       (main_init 50) =
     Some (Returned (- 1)
       \<lparr>jobs = [], next_jid = 1, child_terminated = False, shell_pgid = 50,
        effects = [Setpgid 50 50, Tcsetpgrp 50, Tcgetattr, Pipe, Pipe, Fork, Setpgid 100 100,
                   Fork, Setpgid 101 100, Fork, Perror ''fork'',
                   Kill (- 100) SIGTERM, Kill (- 101) SIGTERM]\<rparr>) \<and>
   (\<exists>s'. runPipeline (sample_os\<lparr>fork_ret := (\<lambda>i. if i = 2 then - 1 else 100 + int i)\<rparr>)
            [sample_stage [''a''], sample_stage [''b''], sample_stage [''c'']] False ''a | b | c''
            (main_init 50) = Some (Returned (- 1) s') \<and>
      signalled (new_effects (main_init 50) s') SIGTERM 100 \<and>
      signalled (new_effects (main_init 50) s') SIGTERM 101)"
proof -
  let ?cmds = "[sample_stage [''a''], sample_stage [''b''], sample_stage [''c'']]"
  let ?osp = "sample_os\<lparr>pipe_ret := (\<lambda>i. if i = 1 then - 1 else 0)\<rparr>"
  let ?os = "sample_os\<lparr>fork_ret := (\<lambda>i. if i = 2 then - 1 else 100 + int i)\<rparr>"
  have h1: "?cmds \<noteq> []" by simp
  have h2: "\<not> inline_builtin ?cmds False" by (simp add: inline_builtin_def)
  have h3: "1 < length ?cmds - 1 \<and> (\<forall>i<1. 0 \<le> pipe_ret ?osp i) \<and> pipe_ret ?osp 1 < 0"
    by simp
  have h4: "(\<forall>i < length ?cmds - 1. 0 \<le> pipe_ret ?os i) \<and> 2 < length ?cmds \<and>
      (\<forall>i<2. 0 < fork_ret ?os i) \<and> fork_ret ?os 2 < 0"
    by (simp add: sample_os_def)
  have r1: "runPipeline ?osp ?cmds False ''a | b | c'' (main_init 50) =
     Some (Returned (- 1)
       \<lparr>jobs = [], next_jid = 1, child_terminated = False, shell_pgid = 50,
        effects = [Setpgid 50 50, Tcsetpgrp 50, Tcgetattr, Pipe, Pipe, Perror ''pipe'']\<rparr>)"
    by code_simp
  have r2: "runPipeline ?os ?cmds False ''a | b | c'' (main_init 50) =
     Some (Returned (- 1)
       \<lparr>jobs = [], next_jid = 1, child_terminated = False, shell_pgid = 50,
        effects = [Setpgid 50 50, Tcsetpgrp 50, Tcgetattr, Pipe, Pipe, Fork, Setpgid 100 100,
                   Fork, Setpgid 101 100, Fork, Perror ''fork'',
                   Kill (- 100) SIGTERM, Kill (- 101) SIGTERM]\<rparr>)"
    by code_simp
  have h5: "length ?cmds = 3 \<and>
      (0 \<le> pipe_ret ?osp 0 \<and> pipe_ret ?osp 1 < 0) \<and>
      (0 \<le> pipe_ret ?os 0 \<and> 0 \<le> pipe_ret ?os 1 \<and> 0 < fork_ret ?os 0 \<and>
       0 < fork_ret ?os 1 \<and> fork_ret ?os 2 < 0)"
    by (simp add: sample_os_def)
  have f: "fork_ret ?os 0 = 100" "fork_ret ?os 1 = 101"
    by (simp_all add: sample_os_def)
  note T = launch_failure_cleanup [OF h1 h2, where m = 1 and osp = ?osp and os = ?os and k = 2
        and raw = "''a | b | c''" and s = "main_init 50"]
  from T have "(\<forall>i < length ?cmds - 1. 0 \<le> pipe_ret ?os i) \<and> 2 < length ?cmds \<and>
      (\<forall>i<2. 0 < fork_ret ?os i) \<and> fork_ret ?os 2 < 0 \<longrightarrow>
      (\<exists>s'. runPipeline ?os ?cmds False ''a | b | c'' (main_init 50) = Some (Returned (- 1) s') \<and>
         jobs s' = jobs (main_init 50) \<and> next_jid s' = next_jid (main_init 50) \<and>
         new_effects (main_init 50) s' =
           replicate (length ?cmds - 1) Pipe @ fork_effects ?os 2 @ [Fork, Perror ''fork''] @
           map (\<lambda>i. Kill (- fork_ret ?os i) SIGTERM) [0..<2] \<and>
         (\<forall>i<2. signalled (new_effects (main_init 50) s') SIGTERM (fork_ret ?os i)))"
    by (rule conjunct2)
  then have "\<exists>s'. runPipeline ?os ?cmds False ''a | b | c'' (main_init 50) = Some (Returned (- 1) s') \<and>
         jobs s' = jobs (main_init 50) \<and> next_jid s' = next_jid (main_init 50) \<and>
         new_effects (main_init 50) s' =
           replicate (length ?cmds - 1) Pipe @ fork_effects ?os 2 @ [Fork, Perror ''fork''] @
           map (\<lambda>i. Kill (- fork_ret ?os i) SIGTERM) [0..<2] \<and>
         (\<forall>i<2. signalled (new_effects (main_init 50) s') SIGTERM (fork_ret ?os i))"
    using h4 by (rule mp)
  then obtain s' where run: "runPipeline ?os ?cmds False ''a | b | c'' (main_init 50) = Some (Returned (- 1) s')"
    and sig: "\<forall>i<2. signalled (new_effects (main_init 50) s') SIGTERM (fork_ret ?os i)"
    by (elim exE conjE)
  have s0: "signalled (new_effects (main_init 50) s') SIGTERM (fork_ret ?os 0)"
    using sig [rule_format, of 0] by simp
  have s1: "signalled (new_effects (main_init 50) s') SIGTERM (fork_ret ?os 1)"
    using sig [rule_format, of 1] by simp
  have ex: "\<exists>s'. runPipeline ?os ?cmds False ''a | b | c'' (main_init 50) = Some (Returned (- 1) s') \<and>
      signalled (new_effects (main_init 50) s') SIGTERM 100 \<and>
      signalled (new_effects (main_init 50) s') SIGTERM 101"
    using run s0 s1 unfolding f by (intro exI [of _ s'] conjI)
  show ?thesis
    using h1 h2 h5 r1 r2 ex by (intro conjI) (elim conjE, assumption)+
qed


section \<open>Properties of the Job Table and of the Signal/Reap Coordinator\<close>

lemma find_first_Some: "find_first P xs = Some i \<Longrightarrow> i < length xs \<and> P (xs ! i)"
proof (induction xs arbitrary: i)
  case Nil
  then show ?case by simp
next
  case (Cons x xs)
  show ?case
  proof (cases "P x")
    case True
    with Cons.prems show ?thesis by simp
  next
    case False
    with Cons.prems obtain k where k: "find_first P xs = Some k" "i = Suc k"
      by auto
    with Cons.IH [OF k(1)] show ?thesis by simp
  qed
qed

lemma find_first_None: "find_first P xs = None \<longleftrightarrow> (\<forall>x \<in> set xs. \<not> P x)"
  by (induction xs) simp_all

lemma forget_status_update [simp]:
  "map forget_status (js[i := (js ! i)\<lparr>status := st\<rparr>]) = map forget_status js"
proof (cases "i < length js")
  case True
  have "map forget_status (js[i := (js ! i)\<lparr>status := st\<rparr>]) =
        (map forget_status js)[i := forget_status ((js ! i)\<lparr>status := st\<rparr>)]"
    by (simp add: map_update)
  also have "forget_status ((js ! i)\<lparr>status := st\<rparr>) = map forget_status js ! i"
    using True by (simp add: forget_status_def)
  finally show ?thesis by simp
next
  case False
  then have "js[i := (js ! i)\<lparr>status := st\<rparr>] = js"
    by (intro list_update_beyond) simp
  then show ?thesis by simp
qed

lemma forget_status_filter:
  "map forget_status (filter (\<lambda>j. R (pgid j)) js) =
   filter (\<lambda>t. R (fst (snd t))) (map forget_status js)"
  by (induction js) (simp_all add: forget_status_def)

lemma forget_status_filter_cong:
  "map forget_status xs = map forget_status ys \<Longrightarrow>
   map forget_status (filter (\<lambda>j. R (pgid j)) xs) = map forget_status (filter (\<lambda>j. R (pgid j)) ys)"
  by (simp add: forget_status_filter)

lemma handle_reaped_jobs:
  "map forget_status (jobs (handle_reaped st pg s)) =
   map forget_status
     (if is_exit st \<and> 0 \<le> pg then filter (\<lambda>j. pgid j \<noteq> pg) (jobs s) else jobs s)"
proof (cases "find_job_by_pid pg (jobs s)")
  case None
  have "filter (\<lambda>j. pgid j \<noteq> pg) (jobs s) = jobs s" if "0 \<le> pg"
  proof -
    have "find_first (\<lambda>j. pgid j = pg) (jobs s) = None"
      using None that by (simp add: find_job_by_pid_def find_job_by_pgid_def)
    then have "\<forall>j \<in> set (jobs s). pgid j \<noteq> pg"
      by (simp add: find_first_None)
    then show ?thesis by simp
  qed
  then show ?thesis using None by (simp add: handle_reaped_def)
next
  case (Some i)
  then have pg: "0 \<le> pg" and f: "find_first (\<lambda>j. pgid j = pg) (jobs s) = Some i"
    by (simp_all add: find_job_by_pid_def find_job_by_pgid_def split: if_splits)
  have j: "pgid (jobs s ! i) = pg"
    using find_first_Some [OF f] by simp
  show ?thesis
    using Some pg j
    by (cases st) (simp_all add: handle_reaped_def Let_def is_exit_def remove_job_by_pgid_def emit_def)
qed

lemma update_jobs_loop_jobs:
  "update_jobs_loop answers s = Some s' \<Longrightarrow>
   map forget_status (jobs s') =
   map forget_status (filter (\<lambda>j. pgid j \<notin> set (exit_groups answers)) (jobs s))"
proof (induction answers arbitrary: s)
  case Nil
  then show ?case by simp
next
  case (Cons a later)
  obtain pid st pg where a: "a = (pid, st, pg)" by (cases a) auto
  let ?s1 = "emit (Waitpid (- 1) [WNOHANG, WUNTRACED, WCONTINUED]) s"
  show ?case
  proof (cases "pid > 0")
    case False
    with Cons.prems show ?thesis by (auto simp: a emit_def)
  next
    case True
    then have rec: "update_jobs_loop later (handle_reaped st pg ?s1) = Some s'"
      using Cons.prems by (simp add: a)
    have step: "map forget_status (jobs (handle_reaped st pg ?s1)) =
        map forget_status
          (if is_exit st \<and> 0 \<le> pg then filter (\<lambda>j. pgid j \<noteq> pg) (jobs s) else jobs s)"
      using handle_reaped_jobs [of st pg ?s1] by (simp add: emit_def)
    have "map forget_status (jobs s') =
        map forget_status (filter (\<lambda>j. pgid j \<notin> set (exit_groups later))
          (jobs (handle_reaped st pg ?s1)))"
      by (rule Cons.IH [OF rec])
    also have "\<dots> = map forget_status (filter (\<lambda>j. pgid j \<notin> set (exit_groups later))
          (if is_exit st \<and> 0 \<le> pg then filter (\<lambda>j. pgid j \<noteq> pg) (jobs s) else jobs s))"
      by (rule forget_status_filter_cong [OF step])
    also have "\<dots> = map forget_status
        (filter (\<lambda>j. pgid j \<notin> set (exit_groups (a # later))) (jobs s))"
      using True by (auto simp: a intro!: arg_cong [where f = "map forget_status"] filter_cong)
    finally show ?thesis .
  qed
qed

lemma wait_resumed_jobs:
  "wait_resumed ws i s = Some s' \<Longrightarrow> map forget_status (jobs s') = map forget_status (jobs s)"
proof (induction ws arbitrary: s)
  case Nil
  then show ?case by simp
next
  case (Cons w ws)
  let ?s1 = "emit (Waitpid (- pgid (jobs s ! i)) [WUNTRACED]) s"
  have again: "map forget_status (jobs s') = map forget_status (jobs s)"
    if "wait_resumed ws i ?s1 = Some s'"
    using Cons.IH [OF that] by (simp add: emit_def)
  have again': "map forget_status (jobs s') = map forget_status (jobs s)"
    if "wait_resumed ws i (child_state_changed st ?s1) = Some s'" for st
    using Cons.IH [OF that] by (simp add: emit_def)
  show ?case
  proof (cases w)
    case (Failed e)
    with Cons.prems again show ?thesis
      by (auto simp: Let_def emit_def split: if_splits)
  next
    case (Reported p st)
    with Cons.prems again' [of st] show ?thesis
      by (cases st) (auto simp: Let_def emit_def)
  qed
qed


lemma update_jobs_jobs:
  "update_jobs answers s = Some s' \<Longrightarrow>
   map forget_status (jobs s') =
   map forget_status (filter (\<lambda>j. pgid j \<notin> set (exit_groups answers)) (jobs s))"
  using update_jobs_loop_jobs [of answers s] by (auto simp: update_jobs_def)

lemma exit_groups_Nil:
  "\<forall>(pid, st, pg) \<in> set answers. is_exit st \<longrightarrow> pg < 0 \<Longrightarrow> exit_groups answers = []"
  by (induction answers) auto

lemma reaped_exit_not_matched:
  "\<forall>(pid, st, pg) \<in> set answers. is_exit st \<longrightarrow> pg < 0 \<Longrightarrow> update_jobs answers s = Some s' \<Longrightarrow>
   map forget_status (jobs s') = map forget_status (jobs s)"
  using update_jobs_jobs [of answers s s'] exit_groups_Nil [of answers] by simp

lemma send_continue_jobs [simp]: "jobs (send_continue os g s) = jobs s"
  by (simp add: send_continue_def Let_def emit_def)

lemma fg_bg_jobs:
  assumes "resolve_target os tokens (jobs s) = Some i" and "fg_bg os tokens s = Some s'"
  shows "map forget_status (jobs s') =
     map forget_status
       (if tokens ! 0 \<noteq> ''bg'' \<and> kill_ret os (- pgid (jobs s ! i)) SIGNULL < 0
        then remove_job_by_pgid (pgid (jobs s ! i)) (jobs s) else jobs s)"
proof (cases "tokens ! 0 = ''bg''")
  case True
  with assms show ?thesis
    by (auto simp: fg_bg_def Let_def emit_def)
next
  case False
  let ?t = "jobs s ! i"
  let ?s1 = "send_continue os (pgid ?t) (emit (Tcsetpgrp (pgid ?t)) s)"
  obtain s2 where w: "wait_resumed (group_wait os) i ?s1 = Some s2"
    using assms False by (auto simp: fg_bg_def Let_def split: option.splits)
  have same: "map forget_status (jobs s2) = map forget_status (jobs s)"
    using wait_resumed_jobs [OF w] by (simp add: emit_def)
  have s': "jobs s' = (if kill_ret os (- pgid ?t) SIGNULL < 0
       then remove_job_by_pgid (pgid ?t) (jobs s2) else jobs s2)"
    using assms False w by (auto simp: fg_bg_def Let_def emit_def)
  show ?thesis
    unfolding s' using same False
      forget_status_filter_cong [OF same, of "\<lambda>g. g \<noteq> pgid ?t"]
    by (simp add: remove_job_by_pgid_def)
qed

text \<open>
  Claim C4 at the input the shell receives when every member of a background job has
  exited. The line \<open>sleep 1 | sleep 2 &\<close> registers job 1, with status \<open>RUNNING\<close>, for
  the children 100 and 101 in the group 100. Both children exit, and the draining pass is
  told of both. \<open>waitpid\<close> has reaped each of them before line 100 asks \<open>getpgid\<close>
  for its group, so that call fails (the answer \<open>- 1\<close>) and the lookup finds no entry:
  every member of the group has exited, and the job is still in the table.
\<close>

theorem exited_job_not_removed:
  "runPipeline sample_os [sample_stage [''sleep'', ''1''], sample_stage [''sleep'', ''2'']] True
       ''sleep 1 | sleep 2'' (main_init 50) =
     Some (Returned 0
       \<lparr>jobs = [\<lparr>jid = 1, pgid = 100, cmd = ''sleep 1 | sleep 2'', status = RUNNING\<rparr>],
        next_jid = 2, child_terminated = False, shell_pgid = 50,
        effects = [Setpgid 50 50, Tcsetpgrp 50, Tcgetattr, Pipe, Fork, Setpgid 100 100,
                   Fork, Setpgid 101 100, Cout ''[1] 100 Started\<newline>'']\<rparr>) \<and>
   update_jobs [(100, Exited 0, - 1), (101, Exited 0, - 1), (0, Exited 0, - 1)]
     (child_state_changed (Exited 0) (child_state_changed (Exited 0)
       \<lparr>jobs = [\<lparr>jid = 1, pgid = 100, cmd = ''sleep 1 | sleep 2'', status = RUNNING\<rparr>],
        next_jid = 2, child_terminated = False, shell_pgid = 50,
        effects = [Setpgid 50 50, Tcsetpgrp 50, Tcgetattr, Pipe, Fork, Setpgid 100 100,
                   Fork, Setpgid 101 100, Cout ''[1] 100 Started\<newline>'']\<rparr>)) =
     Some \<lparr>jobs = [\<lparr>jid = 1, pgid = 100, cmd = ''sleep 1 | sleep 2'', status = RUNNING\<rparr>],
           next_jid = 2, child_terminated = False, shell_pgid = 50,
           effects = [Setpgid 50 50, Tcsetpgrp 50, Tcgetattr, Pipe, Fork, Setpgid 100 100,
                      Fork, Setpgid 101 100, Cout ''[1] 100 Started\<newline>'',
                      Waitpid (- 1) [WNOHANG, WUNTRACED, WCONTINUED],
                      Waitpid (- 1) [WNOHANG, WUNTRACED, WCONTINUED],
                      Waitpid (- 1) [WNOHANG, WUNTRACED, WCONTINUED]]\<rparr> \<and>
   all_members_exited [100, 101] [(100, Exited 0, - 1), (101, Exited 0, - 1), (0, Exited 0, - 1)] \<and>
   \<not> job_removed 100
       \<lparr>jobs = [\<lparr>jid = 1, pgid = 100, cmd = ''sleep 1 | sleep 2'', status = RUNNING\<rparr>],
        next_jid = 2, child_terminated = False, shell_pgid = 50,
        effects = [Setpgid 50 50, Tcsetpgrp 50, Tcgetattr, Pipe, Fork, Setpgid 100 100,
                   Fork, Setpgid 101 100, Cout ''[1] 100 Started\<newline>'',
                   Waitpid (- 1) [WNOHANG, WUNTRACED, WCONTINUED],
                   Waitpid (- 1) [WNOHANG, WUNTRACED, WCONTINUED],
                   Waitpid (- 1) [WNOHANG, WUNTRACED, WCONTINUED]]\<rparr>"
  by code_simp

text \<open>
  Claim C3 at the input the shell receives when a background job ends. The line
  \<open>sleep 1 &\<close> registers job 1 for the child 100. The child exits, the handler sets the
  flag, and the next turn of the loop drains: \<open>waitpid\<close> returns 100 with an exit
  status, which reaps the process, so \<open>getpgid(100)\<close> in \<open>find_job_by_pid\<close> fails (the
  answer \<open>- 1\<close>), the lookup yields no entry, and the branch of line 103 that prints the
  done line and removes the job is not taken. No done line is printed, and \<open>jobs\<close>
  still lists job 1 as running.
\<close>

theorem finished_background_job_stays_listed:
  "main_iter sample_os (Some ''sleep 1 &'') (main_init 50) =
     Some (Continue
       \<lparr>jobs = [\<lparr>jid = 1, pgid = 100, cmd = ''sleep 1'', status = RUNNING\<rparr>],
        next_jid = 2, child_terminated = False, shell_pgid = 50,
        effects = [Setpgid 50 50, Tcsetpgrp 50, Tcgetattr, Cout ''myshell> '',
                   Fork, Setpgid 100 100, Cout ''[1] 100 Started\<newline>'']\<rparr>) \<and>
   drain_wait sample_os = [(100, Exited 0, - 1), (0, Exited 0, - 1)] \<and>
   main_iter sample_os (Some ''jobs'')
     (child_state_changed (Exited 0)
       \<lparr>jobs = [\<lparr>jid = 1, pgid = 100, cmd = ''sleep 1'', status = RUNNING\<rparr>],
        next_jid = 2, child_terminated = False, shell_pgid = 50,
        effects = [Setpgid 50 50, Tcsetpgrp 50, Tcgetattr, Cout ''myshell> '',
                   Fork, Setpgid 100 100, Cout ''[1] 100 Started\<newline>'']\<rparr>) =
     Some (Continue
       \<lparr>jobs = [\<lparr>jid = 1, pgid = 100, cmd = ''sleep 1'', status = RUNNING\<rparr>],
        next_jid = 2, child_terminated = False, shell_pgid = 50,
        effects = [Setpgid 50 50, Tcsetpgrp 50, Tcgetattr, Cout ''myshell> '',
                   Fork, Setpgid 100 100, Cout ''[1] 100 Started\<newline>'',
                   Waitpid (- 1) [WNOHANG, WUNTRACED, WCONTINUED],
                   Waitpid (- 1) [WNOHANG, WUNTRACED, WCONTINUED],
                   Cout ''myshell> '', Cout ''[1] 100 Running    sleep 1\<newline>'']\<rparr>)"
  by code_simp

section \<open>What the steps of the shell leave unchanged\<close>

lemma quiet_refl [simp]: "quiet_step s s"
  by (simp add: quiet_step_def)

lemma quiet_trans: "quiet_step a b \<Longrightarrow> quiet_step b c \<Longrightarrow> quiet_step a c"
  unfolding quiet_step_def
  by (elim conjE exE) (auto intro: exI [where x = "_ @ _"])

lemma quiet_emit: "\<not> is_drain_wait e \<Longrightarrow> quiet_step s (emit e s)"
  by (simp add: quiet_step_def emit_def table_ok_def)

lemma quiet_emit_after: "\<not> is_drain_wait e \<Longrightarrow> quiet_step s s' \<Longrightarrow> quiet_step s (emit e s')"
  using quiet_trans [OF _ quiet_emit] by blast

lemma table_ok_alt:
  "table_ok s \<longleftrightarrow>
   sorted_wrt (<) (map fst (map forget_status (jobs s))) \<and>
   (\<forall>n \<in> set (map fst (map forget_status (jobs s))). n < next_jid s)"
  by (simp add: table_ok_def forget_status_def comp_def)

lemma table_ok_cong:
  "map forget_status (jobs s') = map forget_status (jobs s) \<Longrightarrow> next_jid s' = next_jid s \<Longrightarrow>
   table_ok s' = table_ok s"
  by (simp only: table_ok_alt)

lemma table_ok_filter:
  "table_ok s \<Longrightarrow> jobs s' = filter P (jobs s) \<Longrightarrow> next_jid s' = next_jid s \<Longrightarrow> table_ok s'"
  by (simp add: table_ok_def sorted_wrt_map sorted_wrt_filter)

lemma quiet_same_table:
  "shell_pgid s' = shell_pgid s \<Longrightarrow> effects s' = effects s \<Longrightarrow>
   (table_ok s \<Longrightarrow> table_ok s') \<Longrightarrow> quiet_step s s'"
  by (simp add: quiet_step_def)

lemma quiet_child_state_changed: "quiet_step s (child_state_changed st s)"
  by (rule quiet_same_table) (simp_all add: table_ok_def)

lemma quiet_arrivals: "quiet_step s (foldl (\<lambda>s' st. child_state_changed st s') s sts)"
proof (induction sts arbitrary: s)
  case Nil
  show ?case by simp
next
  case (Cons st sts)
  show ?case
    using quiet_trans [OF quiet_child_state_changed Cons.IH, of s st] by simp
qed

lemma not_drain [simp]:
  "\<not> is_drain_wait (Cout x)" "\<not> is_drain_wait (Cerr x)" "\<not> is_drain_wait (Perror x)"
  "\<not> is_drain_wait (Chdir x)" "\<not> is_drain_wait Pipe" "\<not> is_drain_wait Fork"
  "\<not> is_drain_wait (Setpgid p g)" "\<not> is_drain_wait (Tcsetpgrp g)" "\<not> is_drain_wait Tcgetattr"
  "\<not> is_drain_wait (Kill p sg)" "\<not> is_drain_wait (Waitpid p [WUNTRACED])"
  by (simp_all add: is_drain_wait_def)

lemma quiet_print_jobs: "quiet_step s (print_jobs s)"
  by (simp add: quiet_step_def print_jobs_def table_ok_def filter_empty_conv image_iff)

lemma quiet_change_directory: "quiet_step s (change_directory os args s)"
  by (auto simp: change_directory_def Let_def intro!: quiet_emit quiet_emit_after)

lemma quiet_create_pipes:
  "create_pipes os i k s = r \<Longrightarrow> quiet_step s (case r of Inl s' \<Rightarrow> s' | Inr s' \<Rightarrow> s')"
proof (induction k arbitrary: i s)
  case 0
  then show ?case by auto
next
  case (Suc k)
  show ?case
  proof (cases "pipe_ret os i < 0")
    case True
    with Suc.prems show ?thesis
      by (auto simp: Let_def intro!: quiet_emit quiet_emit_after)
  next
    case False
    with Suc.prems have "create_pipes os (Suc i) k (emit Pipe s) = r"
      by (simp add: Let_def)
    from Suc.IH [OF this] show ?thesis
      by (rule quiet_trans [OF quiet_emit, rotated]) simp
  qed
qed

lemma quiet_foldl_kill:
  "quiet_step s (foldl (\<lambda>s' c. emit (Kill (- c) SIGTERM) s') s pids)"
proof (induction pids arbitrary: s)
  case Nil
  show ?case by simp
next
  case (Cons c pids)
  show ?case
    using quiet_trans [OF quiet_emit Cons.IH, of "Kill (- c) SIGTERM" s] by simp
qed

lemma quiet_fork_stages:
  "fork_stages os i k g pids s = r \<Longrightarrow>
   quiet_step s (case r of ForkFailed s' \<Rightarrow> s' | ForkChild n s' \<Rightarrow> s' | Forked g' ps s' \<Rightarrow> s')"
proof (induction k arbitrary: i g pids s)
  case 0
  then show ?case by auto
next
  case (Suc k)
  let ?pid = "fork_ret os i"
  consider "?pid < 0" | "?pid = 0" | "0 < ?pid" by linarith
  then show ?case
  proof cases
    case 1
    have "quiet_step s (emit (Perror ''fork'') (emit Fork s))"
      by (intro quiet_emit_after) simp_all
    then have "quiet_step s
        (foldl (\<lambda>s' c. emit (Kill (- c) SIGTERM) s') (emit (Perror ''fork'') (emit Fork s)) pids)"
      by (rule quiet_trans [OF _ quiet_foldl_kill])
    with 1 Suc.prems show ?thesis by (auto simp: Let_def)
  next
    case 2
    with Suc.prems show ?thesis by (auto simp: Let_def intro!: quiet_emit)
  next
    case 3
    let ?g = "if g = 0 then ?pid else g"
    let ?s2 = "emit (Setpgid ?pid ?g) (emit Fork s)"
    have rec: "fork_stages os (Suc i) k ?g (pids @ [?pid]) ?s2 = r"
      using 3 Suc.prems by (simp add: Let_def)
    have "quiet_step s ?s2" by (intro quiet_emit_after) simp_all
    then show ?thesis using Suc.IH [OF rec] by (rule quiet_trans)
  qed
qed

lemma quiet_push_job: "quiet_step s (push_job st g raw s)"
proof -
  have "table_ok (push_job st g raw s)" if "table_ok s"
    using table_ok_push [OF that, of "push_job st g raw s" g raw st]
    by (simp add: push_job_def)
  then show ?thesis
    by (intro quiet_same_table) (simp_all add: push_job_def)
qed

lemma quiet_wait_foreground:
  "wait_foreground ws g raw s = Some s' \<Longrightarrow> quiet_step s s'"
proof (induction ws arbitrary: s)
  case Nil
  then show ?case by simp
next
  case (Cons w ws)
  let ?s1 = "emit (Waitpid (- g) [WUNTRACED]) s"
  have s1: "quiet_step s ?s1" by (rule quiet_emit) simp
  have again: "quiet_step s s'" if "wait_foreground ws g raw ?s1 = Some s'"
    using s1 Cons.IH [OF that] by (rule quiet_trans)
  show ?case
  proof (cases w)
    case (Failed e)
    with Cons.prems again s1 show ?thesis
      by (auto simp: Let_def split: if_splits)
  next
    case (Reported p st)
    let ?s2 = "child_state_changed st ?s1"
    have s2: "quiet_step s ?s2"
      using s1 quiet_child_state_changed by (rule quiet_trans)
    have again': "quiet_step s s'" if "wait_foreground ws g raw ?s2 = Some s'"
      using s2 Cons.IH [OF that] by (rule quiet_trans)
    have stop: "quiet_step s (emit (Cout (stopped_notice (next_jid ?s2) g raw)) (push_job STOPPED g raw ?s2))"
      by (intro quiet_emit_after quiet_trans [OF s2 quiet_push_job]) simp
    from Cons.prems Reported again' stop show ?thesis
      by (cases st) (auto simp: Let_def)
  qed
qed


lemma quiet_launch:
  "launch os cmds background raw s = Some r \<Longrightarrow> quiet_step s (outcome_state r)"
proof -
  assume run: "launch os cmds background raw s = Some r"
  let ?n = "length cmds"
  show ?thesis
  proof (cases "create_pipes os 0 (?n - 1) s")
    case (Inl s1)
    from quiet_create_pipes [OF this] run Inl show ?thesis
      by (auto simp: launch_def outcome_state_def)
  next
    case (Inr s1)
    from quiet_create_pipes [OF this] have q1: "quiet_step s s1" by simp
    show ?thesis
    proof (cases "fork_stages os 0 ?n 0 [] s1")
      case (ForkFailed s2)
      from quiet_fork_stages [OF this] have "quiet_step s1 s2" by simp
      with q1 have "quiet_step s s2" by (rule quiet_trans)
      with run Inr ForkFailed show ?thesis
        by (auto simp: launch_def outcome_state_def)
    next
      case (ForkChild i s2)
      from quiet_fork_stages [OF this] have "quiet_step s1 s2" by simp
      with q1 have "quiet_step s s2" by (rule quiet_trans)
      with run Inr ForkChild show ?thesis
        by (auto simp: launch_def outcome_state_def)
    next
      case (Forked g0 pids s2)
      from quiet_fork_stages [OF this] have "quiet_step s1 s2" by simp
      with q1 have q2: "quiet_step s s2" by (rule quiet_trans)
      let ?g = "if g0 = 0 then (if pids = [] then 0 else pids ! 0) else g0"
      show ?thesis
      proof (cases background)
        case True
        have "quiet_step s (emit (Cout (started_notice (next_jid s2) ?g)) (push_job RUNNING ?g raw s2))"
          by (intro quiet_emit_after quiet_trans [OF q2 quiet_push_job]) simp
        with run Inr Forked True show ?thesis
          by (auto simp: launch_def outcome_state_def Let_def)
      next
        case False
        then obtain s3 where w: "wait_foreground (group_wait os) ?g raw (emit (Tcsetpgrp ?g) s2) = Some s3"
          and r: "r = Returned 0 (emit Tcgetattr (emit (Tcsetpgrp (shell_pgid s3)) s3))"
          using run Inr Forked by (auto simp: launch_def Let_def)
        have "quiet_step s (emit (Tcsetpgrp ?g) s2)"
          using q2 by (intro quiet_emit_after) simp_all
        then have "quiet_step s s3"
          using quiet_wait_foreground [OF w] by (rule quiet_trans)
        then have "quiet_step s (emit Tcgetattr (emit (Tcsetpgrp (shell_pgid s3)) s3))"
          by (intro quiet_emit_after) simp_all
        then show ?thesis by (simp add: r outcome_state_def)
      qed
    qed
  qed
qed

lemma quiet_runPipeline:
  "runPipeline os cmds background raw s = Some r \<Longrightarrow> quiet_step s (outcome_state r)"
  using quiet_launch [of os cmds background raw s r]
  by (auto simp: runPipeline_def Let_def outcome_state_def quiet_change_directory quiet_print_jobs
      split: if_splits)

lemma quiet_send_continue: "quiet_step s (send_continue os g s)"
  by (auto simp: send_continue_def Let_def intro!: quiet_emit quiet_emit_after)

lemma quiet_set_status: "quiet_step s (s\<lparr>jobs := (jobs s)[i := (jobs s ! i)\<lparr>status := st\<rparr>]\<rparr>)"
proof -
  let ?s' = "s\<lparr>jobs := (jobs s)[i := (jobs s ! i)\<lparr>status := st\<rparr>]\<rparr>"
  have "table_ok ?s' = table_ok s"
    by (rule table_ok_cong) simp_all
  then show ?thesis by (intro quiet_same_table) simp_all
qed

lemma quiet_remove: "quiet_step s (s\<lparr>jobs := remove_job_by_pgid g (jobs s)\<rparr>)"
proof -
  have "table_ok (s\<lparr>jobs := remove_job_by_pgid g (jobs s)\<rparr>)" if "table_ok s"
    using that by (rule table_ok_filter) (simp_all add: remove_job_by_pgid_def)
  then show ?thesis by (intro quiet_same_table) simp_all
qed

lemma quiet_wait_resumed:
  "wait_resumed ws i s = Some s' \<Longrightarrow> quiet_step s s'"
proof (induction ws arbitrary: s)
  case Nil
  then show ?case by simp
next
  case (Cons w ws)
  let ?t = "jobs s ! i"
  let ?s1 = "emit (Waitpid (- pgid ?t) [WUNTRACED]) s"
  have s1: "quiet_step s ?s1" by (rule quiet_emit) simp
  have again: "quiet_step s s'" if "wait_resumed ws i ?s1 = Some s'"
    using s1 Cons.IH [OF that] by (rule quiet_trans)
  show ?case
  proof (cases w)
    case (Failed e)
    with Cons.prems again s1 show ?thesis
      by (auto simp: Let_def split: if_splits)
  next
    case (Reported p st)
    let ?s2 = "child_state_changed st ?s1"
    have s2: "quiet_step s ?s2"
      using s1 quiet_child_state_changed by (rule quiet_trans)
    have again': "quiet_step s s'" if "wait_resumed ws i ?s2 = Some s'"
      using s2 Cons.IH [OF that] by (rule quiet_trans)
    have "quiet_step ?s2 (?s2\<lparr>jobs := (jobs ?s2)[i := (jobs ?s2 ! i)\<lparr>status := STOPPED\<rparr>]\<rparr>)"
      by (rule quiet_set_status)
    then have "quiet_step s (?s2\<lparr>jobs := (jobs ?s2)[i := ?t\<lparr>status := STOPPED\<rparr>]\<rparr>)"
      using s2 by (simp add: quiet_trans)
    then have stop: "quiet_step s (emit (Cout (stopped_notice (jid ?t) (pgid ?t) (cmd ?t)))
        (?s2\<lparr>jobs := (jobs ?s2)[i := ?t\<lparr>status := STOPPED\<rparr>]\<rparr>))"
      by (intro quiet_emit_after) simp_all
    from Cons.prems Reported again' stop show ?thesis
      by (cases st) (auto simp: Let_def)
  qed
qed

lemma quiet_fg_bg: "fg_bg os tokens s = Some s' \<Longrightarrow> quiet_step s s'"
proof -
  assume run: "fg_bg os tokens s = Some s'"
  show ?thesis
  proof (cases "resolve_target os tokens (jobs s)")
    case None
    with run show ?thesis by (auto simp: fg_bg_def intro!: quiet_emit)
  next
    case (Some i)
    let ?t = "jobs s ! i"
    show ?thesis
    proof (cases "tokens ! 0 = ''bg''")
      case True
      let ?s1 = "send_continue os (pgid ?t) s"
      let ?s2 = "?s1\<lparr>jobs := (jobs ?s1)[i := ?t\<lparr>status := RUNNING\<rparr>]\<rparr>"
      have "quiet_step ?s1 (?s1\<lparr>jobs := (jobs ?s1)[i := (jobs ?s1 ! i)\<lparr>status := RUNNING\<rparr>]\<rparr>)"
        by (rule quiet_set_status)
      then have "quiet_step s ?s2"
        using quiet_trans [OF quiet_send_continue [of s os "pgid ?t"]] by simp
      then have "quiet_step s (emit (Cout (job_tag ?t @ '' Continued in background\<newline>'')) ?s2)"
        by (intro quiet_emit_after) simp_all
      with run Some True show ?thesis by (simp add: fg_bg_def Let_def)
    next
      case False
      let ?s1 = "send_continue os (pgid ?t) (emit (Tcsetpgrp (pgid ?t)) s)"
      obtain s2 where w: "wait_resumed (group_wait os) i ?s1 = Some s2"
        using run Some False by (auto simp: fg_bg_def Let_def split: option.splits)
      let ?s3 = "emit (Kill (- pgid ?t) SIGNULL) s2"
      let ?s4 = "if kill_ret os (- pgid ?t) SIGNULL < 0
                 then ?s3\<lparr>jobs := remove_job_by_pgid (pgid ?t) (jobs ?s3)\<rparr> else ?s3"
      have s': "s' = emit (Tcsetpgrp (shell_pgid ?s4)) ?s4"
        using run Some False w by (simp add: fg_bg_def Let_def)
      have "quiet_step s (emit (Tcsetpgrp (pgid ?t)) s)" by (rule quiet_emit) simp
      then have "quiet_step s ?s1" using quiet_send_continue by (rule quiet_trans)
      then have "quiet_step s s2" using quiet_wait_resumed [OF w] by (rule quiet_trans)
      then have q3: "quiet_step s ?s3" by (intro quiet_emit_after) simp_all
      have "quiet_step s ?s4"
        using q3 quiet_trans [OF q3 quiet_remove] by simp
      then show ?thesis unfolding s' by (intro quiet_emit_after) simp_all
    qed
  qed
qed

lemma quiet_run_line:
  "run_line os tokens background input s = Some r \<Longrightarrow> quiet_step s (step_state r)"
proof -
  assume run: "run_line os tokens background input s = Some r"
  have pipeline: "quiet_step s (step_state r)"
    if h: "(let cmds = buildCommands tokens
         in if cmds = [] then Some (Continue s)
            else (case runPipeline os cmds background input s of
                    None \<Rightarrow> None
                  | Some (Returned c s') \<Rightarrow> Some (Continue s')
                  | Some (InChild i s') \<Rightarrow> Some (Child i s')
                  | Some (ShellExit c s') \<Rightarrow> Some (Finish c s'))) = Some r"
  proof (cases "buildCommands tokens = []")
    case True
    with h show ?thesis by (auto simp: step_state_def)
  next
    case False
    then obtain x where x: "runPipeline os (buildCommands tokens) background input s = Some x"
      using h by (cases "runPipeline os (buildCommands tokens) background input s")
        (auto simp: Let_def)
    from quiet_runPipeline [OF x] False h x show ?thesis
      by (cases x) (auto simp: Let_def step_state_def outcome_state_def)
  qed
  show ?thesis
    using run pipeline quiet_fg_bg [of os tokens s]
    by (auto simp: run_line_def step_state_def quiet_print_jobs quiet_change_directory
        split: if_splits)
qed

lemma quiet_read_and_run:
  "read_and_run os line s = Some r \<Longrightarrow> quiet_step s (step_state r)"
proof -
  assume run: "read_and_run os line s = Some r"
  let ?s2 = "foldl (\<lambda>s' st. child_state_changed st s') (emit (Cout ''myshell> '') s) (arrivals os)"
  have p: "quiet_step s ?s2"
    by (rule quiet_trans [OF quiet_emit quiet_arrivals]) simp
  have line: "quiet_step s (step_state r)" if "run_line os tk bg inp ?s2 = Some r" for tk bg inp
    using p quiet_run_line [OF that] by (rule quiet_trans)
  show ?thesis
    using run p line
    by (auto simp: read_and_run_def Let_def step_state_def split: option.splits if_splits)
qed

lemma handle_reaped_frame:
  "child_terminated (handle_reaped st pg s) = child_terminated s \<and>
   shell_pgid (handle_reaped st pg s) = shell_pgid s \<and>
   next_jid (handle_reaped st pg s) = next_jid s \<and>
   (\<exists>es. effects (handle_reaped st pg s) = effects s @ es \<and> filter is_drain_wait es = [])"
  by (cases st) (auto simp: handle_reaped_def Let_def emit_def split: option.splits)

lemma update_jobs_loop_frame:
  "update_jobs_loop answers s = Some s' \<Longrightarrow>
   child_terminated s' = child_terminated s \<and> shell_pgid s' = shell_pgid s \<and>
   next_jid s' = next_jid s"
proof (induction answers arbitrary: s)
  case Nil
  then show ?case by simp
next
  case (Cons a later)
  obtain pid st pg where a: "a = (pid, st, pg)" by (cases a) auto
  let ?s1 = "emit (Waitpid (- 1) [WNOHANG, WUNTRACED, WCONTINUED]) s"
  show ?case
  proof (cases "pid > 0")
    case False
    with Cons.prems show ?thesis by (auto simp: a)
  next
    case True
    then have rec: "update_jobs_loop later (handle_reaped st pg ?s1) = Some s'"
      using Cons.prems by (simp add: a)
    show ?thesis
      using Cons.IH [OF rec] handle_reaped_frame [of st pg ?s1] by simp
  qed
qed

lemma update_jobs_table_ok:
  assumes "update_jobs answers s = Some s'" and "table_ok s"
  shows "table_ok s'"
proof -
  let ?f = "s\<lparr>jobs := filter (\<lambda>j. pgid j \<notin> set (exit_groups answers)) (jobs s)\<rparr>"
  obtain s0 where s0: "update_jobs_loop answers s = Some s0" and s': "s' = s0\<lparr>child_terminated := False\<rparr>"
    using assms(1) by (auto simp: update_jobs_def)
  have nj: "next_jid s' = next_jid ?f"
    using update_jobs_loop_frame [OF s0] by (simp add: s')
  have "map forget_status (jobs s') = map forget_status (jobs ?f)"
    using update_jobs_jobs [OF assms(1)] by simp
  then have "table_ok s' = table_ok ?f" using nj by (rule table_ok_cong)
  moreover have "table_ok ?f"
    using assms(2) by (rule table_ok_filter) simp_all
  ultimately show ?thesis by simp
qed

lemma update_jobs_loop_runs:
  "\<forall>a \<in> set handled. 0 < fst a \<Longrightarrow> pid0 \<le> 0 \<Longrightarrow>
   \<exists>s' es. update_jobs_loop (handled @ (pid0, st0, pg0) # later) s = Some s' \<and>
     effects s' = effects s @ es \<and>
     filter is_drain_wait es =
       replicate (Suc (length handled)) (Waitpid (- 1) [WNOHANG, WUNTRACED, WCONTINUED])"
proof (induction handled arbitrary: s)
  case Nil
  then show ?case by (simp add: emit_def is_drain_wait_def)
next
  case (Cons a handled)
  obtain pid st pg where a: "a = (pid, st, pg)" by (cases a) auto
  have pid: "0 < pid" using Cons.prems(1) by (simp add: a)
  let ?W = "Waitpid (- 1) [WNOHANG, WUNTRACED, WCONTINUED]"
  let ?s1 = "emit ?W s"
  let ?s2 = "handle_reaped st pg ?s1"
  obtain es1 where es1: "effects ?s2 = effects ?s1 @ es1" "filter is_drain_wait es1 = []"
    using handle_reaped_frame [of st pg ?s1] by blast
  have rest: "\<forall>a \<in> set handled. 0 < fst a" using Cons.prems(1) by simp
  obtain s' es where run: "update_jobs_loop (handled @ (pid0, st0, pg0) # later) ?s2 = Some s'"
    and eff: "effects s' = effects ?s2 @ es"
    and cnt: "filter is_drain_wait es = replicate (Suc (length handled)) ?W"
    using Cons.IH [OF rest Cons.prems(2), of ?s2] by blast
  have "update_jobs_loop ((a # handled) @ (pid0, st0, pg0) # later) s = Some s'"
    using run pid by (simp add: a)
  moreover have "effects s' = effects s @ (?W # es1 @ es)"
    using eff es1(1) by (simp add: emit_def)
  moreover have "filter is_drain_wait (?W # es1 @ es) = replicate (Suc (length (a # handled))) ?W"
    using es1(2) cnt by (simp add: is_drain_wait_def)
  ultimately show ?case by blast
qed

lemma main_iter_unfold:
  "main_iter os line s =
     (if child_terminated s
      then (case update_jobs (drain_wait os) s of None \<Rightarrow> None | Some s1 \<Rightarrow> read_and_run os line s1)
      else read_and_run os line s)"
  by (simp add: main_iter_def)

lemma main_iter_table_ok:
  assumes "main_iter os line s = Some r" and "table_ok s"
  shows "table_ok (step_state r)"
proof (cases "child_terminated s")
  case False
  with assms(1) have "read_and_run os line s = Some r" by (simp add: main_iter_unfold)
  from quiet_read_and_run [OF this] assms(2) show ?thesis by (simp add: quiet_step_def)
next
  case True
  then obtain s1 where d: "update_jobs (drain_wait os) s = Some s1"
    and r: "read_and_run os line s1 = Some r"
    using assms(1) by (auto simp: main_iter_unfold split: option.splits)
  have "table_ok s1" using d assms(2) by (rule update_jobs_table_ok)
  with quiet_read_and_run [OF r] show ?thesis by (simp add: quiet_step_def)
qed

lemma table_ok_main_init: "table_ok (main_init pid)"
  by (simp add: table_ok_def main_init_def)

text \<open>
  Claim C6, as amended. When a child exits or is terminated, the notification sets the
  flag and changes nothing else; a stop or a continue of a child raises no notification,
  because the handler is installed with \<open>SA_NOCLDSTOP\<close>, and leaves the state as it
  is. A turn of the main loop tests the flag once, at its start: if the flag is set the
  turn first drains, otherwise it does not, and nothing after the test makes a
  non-blocking \<open>waitpid\<close>. A draining pass asks \<open>waitpid\<close> with \<open>WNOHANG\<close>,
  \<open>WUNTRACED\<close> and \<open>WCONTINUED\<close> again and again, once for every child it is given and
  once more for the answer without a child that ends it, and then clears the flag.
\<close>

theorem sigchld_flag_protocol:
  "child_state_changed (Exited c) s = s\<lparr>child_terminated := True\<rparr> \<and>
   child_state_changed (Signaled n) s = s\<lparr>child_terminated := True\<rparr> \<and>
   child_state_changed (Stopped n) s = s \<and>
   child_state_changed Continued s = s \<and>
   main_iter os line s =
     (if child_terminated s
      then (case update_jobs (drain_wait os) s of None \<Rightarrow> None | Some s1 \<Rightarrow> read_and_run os line s1)
      else read_and_run os line s) \<and>
   (read_and_run os line t = Some r \<longrightarrow>
      filter is_drain_wait (new_effects t (step_state r)) = []) \<and>
   ((\<forall>a \<in> set handled. 0 < fst a) \<and> pid0 \<le> 0 \<longrightarrow>
      (\<exists>s'. update_jobs (handled @ (pid0, st0, pg0) # later) s = Some s' \<and>
         \<not> child_terminated s' \<and>
         filter is_drain_wait (new_effects s s') =
           replicate (Suc (length handled)) (Waitpid (- 1) [WNOHANG, WUNTRACED, WCONTINUED])))"
proof -
  have notify: "child_state_changed (Exited c) s = s\<lparr>child_terminated := True\<rparr> \<and>
      child_state_changed (Signaled n) s = s\<lparr>child_terminated := True\<rparr> \<and>
      child_state_changed (Stopped n) s = s \<and> child_state_changed Continued s = s"
    by (simp add: child_state_changed_def sigchld_generated_def sigchld_flags_def sigchld_handler_def)
  have rest: "filter is_drain_wait (new_effects t (step_state r)) = []"
    if h: "read_and_run os line t = Some r"
  proof -
    from quiet_read_and_run [OF h] obtain es where
      "effects (step_state r) = effects t @ es" "filter is_drain_wait es = []"
      by (auto simp: quiet_step_def)
    then show ?thesis by (simp add: new_effects_def)
  qed
  have drain: "\<exists>s'. update_jobs (handled @ (pid0, st0, pg0) # later) s = Some s' \<and>
         \<not> child_terminated s' \<and>
         filter is_drain_wait (new_effects s s') =
           replicate (Suc (length handled)) (Waitpid (- 1) [WNOHANG, WUNTRACED, WCONTINUED])"
    if h: "\<forall>a \<in> set handled. 0 < fst a" "pid0 \<le> 0"
  proof -
    obtain s0 es where run: "update_jobs_loop (handled @ (pid0, st0, pg0) # later) s = Some s0"
      and eff: "effects s0 = effects s @ es"
      and cnt: "filter is_drain_wait es =
          replicate (Suc (length handled)) (Waitpid (- 1) [WNOHANG, WUNTRACED, WCONTINUED])"
      using update_jobs_loop_runs [OF h, of st0 pg0 later s] by blast
    let ?s' = "s0\<lparr>child_terminated := False\<rparr>"
    have "update_jobs (handled @ (pid0, st0, pg0) # later) s = Some ?s'"
      using run by (simp add: update_jobs_def)
    moreover have "new_effects s ?s' = es" using eff by (simp add: new_effects_def)
    ultimately show ?thesis using cnt by (intro exI [of _ ?s']) simp
  qed
  show ?thesis
    using notify main_iter_unfold [of os line s] rest drain by blast
qed

text \<open>
  Claim C6 as stated fails for a stop and for a continue: the flag is still unset after
  such a change of state of a child.
\<close>

theorem sigchld_on_stop_or_continue_counterexample:
  "\<not> child_terminated (child_state_changed (Stopped 20) (main_init 50)) \<and>
   \<not> child_terminated (child_state_changed Continued (main_init 50))"
  by (simp add: child_state_changed_def sigchld_generated_def sigchld_flags_def main_init_def)


theorem sigchld_flag_protocol_witness:
  "read_and_run sample_os (Some ''cat | wc'') (main_init 50) =
     Some (Continue
       \<lparr>jobs = [\<lparr>jid = 1, pgid = 100, cmd = ''cat | wc'', status = STOPPED\<rparr>],
        next_jid = 2, child_terminated = True, shell_pgid = 50,
        effects = [Setpgid 50 50, Tcsetpgrp 50, Tcgetattr, Cout ''myshell> '',
                   Pipe, Fork, Setpgid 100 100, Fork, Setpgid 101 100, Tcsetpgrp 100,
                   Waitpid (- 100) [WUNTRACED], Waitpid (- 100) [WUNTRACED],
                   Waitpid (- 100) [WUNTRACED],
                   Cout ''\<newline>[1] 100 Stopped    cat | wc\<newline>'', Tcsetpgrp 50, Tcgetattr]\<rparr>) \<and>
   filter is_drain_wait (new_effects (main_init 50) (step_state (Continue
       \<lparr>jobs = [\<lparr>jid = 1, pgid = 100, cmd = ''cat | wc'', status = STOPPED\<rparr>],
        next_jid = 2, child_terminated = True, shell_pgid = 50,
        effects = [Setpgid 50 50, Tcsetpgrp 50, Tcgetattr, Cout ''myshell> '',
                   Pipe, Fork, Setpgid 100 100, Fork, Setpgid 101 100, Tcsetpgrp 100,
                   Waitpid (- 100) [WUNTRACED], Waitpid (- 100) [WUNTRACED],
                   Waitpid (- 100) [WUNTRACED],
                   Cout ''\<newline>[1] 100 Stopped    cat | wc\<newline>'', Tcsetpgrp 50, Tcgetattr]\<rparr>))) = [] \<and>
   (0::int) < fst (100::int, Exited 0, - 1::int) \<and> (0::int) \<le> 0 \<and>
   child_terminated sample_table \<and>
   (\<exists>s'. update_jobs ([(100, Exited 0, - 1)] @ (0, Exited 0, - 1) # []) sample_table = Some s' \<and>
      \<not> child_terminated s' \<and>
      filter is_drain_wait (new_effects sample_table s') =
        replicate (Suc (length [(100::int, Exited 0, - 1::int)]))
          (Waitpid (- 1) [WNOHANG, WUNTRACED, WCONTINUED])) \<and>
   main_iter sample_os (Some ''jobs'') sample_table =
     (case update_jobs (drain_wait sample_os) sample_table of
        None \<Rightarrow> None
      | Some s1 \<Rightarrow> read_and_run sample_os (Some ''jobs'') s1)"
proof -
  let ?r = "Continue
       \<lparr>jobs = [\<lparr>jid = 1, pgid = 100, cmd = ''cat | wc'', status = STOPPED\<rparr>],
        next_jid = 2, child_terminated = True, shell_pgid = 50,
        effects = [Setpgid 50 50, Tcsetpgrp 50, Tcgetattr, Cout ''myshell> '',
                   Pipe, Fork, Setpgid 100 100, Fork, Setpgid 101 100, Tcsetpgrp 100,
                   Waitpid (- 100) [WUNTRACED], Waitpid (- 100) [WUNTRACED],
                   Waitpid (- 100) [WUNTRACED],
                   Cout ''\<newline>[1] 100 Stopped    cat | wc\<newline>'', Tcsetpgrp 50, Tcgetattr]\<rparr>"
  note T = sigchld_flag_protocol [where os = sample_os and line = "Some ''jobs''"
        and s = sample_table and handled = "[(100, Exited 0, - 1)]" and ?pid0.0 = 0
        and ?st0.0 = "Exited 0" and ?pg0.0 = "- 1" and later = "[]"]
  note U = sigchld_flag_protocol [where os = sample_os and line = "Some ''cat | wc''"
        and t = "main_init 50" and r = ?r]
  have h1: "read_and_run sample_os (Some ''cat | wc'') (main_init 50) = Some ?r"
    by code_simp
  have h2: "(\<forall>a \<in> set [(100::int, Exited 0, - 1::int)]. 0 < fst a) \<and> (0::int) \<le> 0"
    by simp
  have h2a: "(0::int) < fst (100::int, Exited 0, - 1::int)" and h2b: "(0::int) \<le> 0"
    by simp_all
  have h3: "child_terminated sample_table"
    by (simp add: sample_table_def)
  have rest: "filter is_drain_wait (new_effects (main_init 50) (step_state ?r)) = []"
    by (rule mp [OF U [THEN conjunct2, THEN conjunct2, THEN conjunct2, THEN conjunct2,
          THEN conjunct2, THEN conjunct1] h1])
  have drain: "\<exists>s'. update_jobs ([(100, Exited 0, - 1)] @ (0, Exited 0, - 1) # []) sample_table = Some s' \<and>
      \<not> child_terminated s' \<and>
      filter is_drain_wait (new_effects sample_table s') =
        replicate (Suc (length [(100::int, Exited 0, - 1::int)]))
          (Waitpid (- 1) [WNOHANG, WUNTRACED, WCONTINUED])"
    by (rule mp [OF T [THEN conjunct2, THEN conjunct2, THEN conjunct2, THEN conjunct2,
          THEN conjunct2, THEN conjunct2] h2])
  have poll: "main_iter sample_os (Some ''jobs'') sample_table =
     (case update_jobs (drain_wait sample_os) sample_table of
        None \<Rightarrow> None
      | Some s1 \<Rightarrow> read_and_run sample_os (Some ''jobs'') s1)"
    using T [THEN conjunct2, THEN conjunct2, THEN conjunct2, THEN conjunct2, THEN conjunct1] h3
    by (simp only: if_True)
  show ?thesis
    by (intro conjI) (rule h1 rest h2a h2b h3 drain poll)+
qed

section \<open>Properties of the Foreground Control Switch and of the main loop\<close>

lemma all_digits_no_percent: "all_digits a \<Longrightarrow> \<not> (a \<noteq> [] \<and> hd a = CHR ''%'')"
  by (cases a) (auto simp: all_digits_def is_digit_def)

lemma last_is_greatest:
  assumes "table_ok s" and "jobs s \<noteq> []"
  shows "\<forall>j \<in> set (jobs s). jid j \<le> jid (last (jobs s))"
proof -
  obtain js x where js: "jobs s = js @ [x]"
    using assms(2) by (cases "jobs s" rule: rev_cases) auto
  have "sorted_wrt (<) (map jid js @ [jid x])"
    using assms(1) by (simp add: table_ok_def js)
  then have "\<forall>n \<in> set (map jid js). n < jid x"
    by (simp add: sorted_wrt_append)
  then show ?thesis by (auto simp: js)
qed

lemma find_first_iff: "find_first P xs = Some i \<longleftrightarrow> first_with P xs i"
proof (induction xs arbitrary: i)
  case Nil
  show ?case by (simp add: first_with_def)
next
  case (Cons x xs)
  show ?case
  proof (cases "P x")
    case True
    then show ?thesis by (cases i) (auto simp: first_with_def)
  next
    case False
    then show ?thesis using Cons.IH by (cases i) (auto simp: first_with_def)
  qed
qed

lemma find_first_finds:
  "\<exists>x \<in> set xs. P x \<Longrightarrow> \<exists>i. find_first P xs = Some i \<and> first_with P xs i"
proof -
  assume "\<exists>x \<in> set xs. P x"
  then have "find_first P xs \<noteq> None" by (simp add: find_first_None)
  then obtain i where "find_first P xs = Some i" by auto
  then show ?thesis using find_first_iff [of P xs i] by auto
qed

lemma resolve_without_argument:
  "js \<noteq> [] \<Longrightarrow> \<exists>i. resolve_target os [c] js = Some i \<and> i < length js \<and> js ! i = last js"
  by (simp add: resolve_target_def last_conv_nth)

lemma resolve_percent:
  "resolve_target os (c # (CHR ''%'' # ds) # others) js =
     (if 0 < atoi ds then find_job_by_jid (atoi ds) js else None)"
  by (simp add: resolve_target_def Let_def)

lemma resolve_digits:
  "all_digits a \<Longrightarrow>
   resolve_target os (c # a # others) js =
        (case find_job_by_jid (atoi a) js of
           Some i \<Rightarrow> Some i
         | None \<Rightarrow>
             if atoi a = 0 then None
             else (case find_job_by_pgid (atoi a) js of
                     Some i \<Rightarrow> Some i
                   | None \<Rightarrow> find_job_by_pid (getpgid os (atoi a)) js))"
  using all_digits_no_percent [of a]
  by (auto simp: resolve_target_def Let_def by_pgid_or_pid_def split: option.splits)

lemma resolve_digits_cases:
  assumes a: "all_digits a"
  shows "((\<exists>j \<in> set js. jid j = atoi a) \<longrightarrow>
        (\<exists>i. resolve_target os (c # a # others) js = Some i \<and>
           first_with (\<lambda>j. jid j = atoi a) js i)) \<and>
     ((\<forall>j \<in> set js. jid j \<noteq> atoi a) \<and> atoi a \<noteq> 0 \<and> (\<exists>j \<in> set js. pgid j = atoi a) \<longrightarrow>
        (\<exists>i. resolve_target os (c # a # others) js = Some i \<and>
           first_with (\<lambda>j. pgid j = atoi a) js i)) \<and>
     ((\<forall>j \<in> set js. jid j \<noteq> atoi a \<and> pgid j \<noteq> atoi a) \<and> atoi a \<noteq> 0 \<and>
      0 \<le> getpgid os (atoi a) \<and> (\<exists>j \<in> set js. pgid j = getpgid os (atoi a)) \<longrightarrow>
        (\<exists>i. resolve_target os (c # a # others) js = Some i \<and>
           first_with (\<lambda>j. pgid j = getpgid os (atoi a)) js i)) \<and>
     ((\<forall>j \<in> set js. jid j \<noteq> atoi a) \<and>
      (atoi a = 0 \<or>
       (\<forall>j \<in> set js. pgid j \<noteq> atoi a) \<and>
       (getpgid os (atoi a) < 0 \<or> (\<forall>j \<in> set js. pgid j \<noteq> getpgid os (atoi a)))) \<longrightarrow>
        resolve_target os (c # a # others) js = None)"
proof -
  let ?n = "atoi a"
  note R = resolve_digits [OF a, of os c others js]
  have no_jid: "find_job_by_jid ?n js = None" if "\<forall>j \<in> set js. jid j \<noteq> ?n"
    using that by (simp add: find_job_by_jid_def find_first_None)
  have no_pgid: "find_job_by_pgid g js = None" if "\<forall>j \<in> set js. pgid j \<noteq> g" for g
    using that by (simp add: find_job_by_pgid_def find_first_None)
  have d1: "\<exists>i. resolve_target os (c # a # others) js = Some i \<and> first_with (\<lambda>j. jid j = ?n) js i"
    if h: "\<exists>j \<in> set js. jid j = ?n"
  proof -
    obtain i where i: "find_first (\<lambda>j. jid j = ?n) js = Some i" "first_with (\<lambda>j. jid j = ?n) js i"
      using find_first_finds [OF h] by blast
    show ?thesis using i by (simp add: R find_job_by_jid_def)
  qed
  have d2: "\<exists>i. resolve_target os (c # a # others) js = Some i \<and> first_with (\<lambda>j. pgid j = ?n) js i"
    if h: "\<forall>j \<in> set js. jid j \<noteq> ?n" "?n \<noteq> 0" "\<exists>j \<in> set js. pgid j = ?n"
  proof -
    obtain i where i: "find_first (\<lambda>j. pgid j = ?n) js = Some i" "first_with (\<lambda>j. pgid j = ?n) js i"
      using find_first_finds [OF h(3)] by blast
    show ?thesis using i h(2) by (simp add: R no_jid [OF h(1)] find_job_by_pgid_def)
  qed
  have d3: "\<exists>i. resolve_target os (c # a # others) js = Some i \<and>
      first_with (\<lambda>j. pgid j = getpgid os ?n) js i"
    if h: "\<forall>j \<in> set js. jid j \<noteq> ?n \<and> pgid j \<noteq> ?n" "?n \<noteq> 0" "0 \<le> getpgid os ?n"
      "\<exists>j \<in> set js. pgid j = getpgid os ?n"
  proof -
    obtain i where i: "find_first (\<lambda>j. pgid j = getpgid os ?n) js = Some i"
      "first_with (\<lambda>j. pgid j = getpgid os ?n) js i"
      using find_first_finds [OF h(4)] by blast
    have nj: "find_job_by_jid ?n js = None" using h(1) by (intro no_jid) simp
    have np: "find_job_by_pgid ?n js = None" using h(1) by (intro no_pgid) simp
    have "resolve_target os (c # a # others) js = find_job_by_pid (getpgid os ?n) js"
      unfolding R nj using h(2) by (simp add: np)
    then show ?thesis using i h(3) by (simp add: find_job_by_pid_def find_job_by_pgid_def)
  qed
  have d4: "resolve_target os (c # a # others) js = None"
    if h: "\<forall>j \<in> set js. jid j \<noteq> ?n"
      "?n = 0 \<or> (\<forall>j \<in> set js. pgid j \<noteq> ?n) \<and>
         (getpgid os ?n < 0 \<or> (\<forall>j \<in> set js. pgid j \<noteq> getpgid os ?n))"
  proof -
    have nj: "find_job_by_jid ?n js = None" using h(1) by (rule no_jid)
    show ?thesis
    proof (cases "?n = 0")
      case True
      show ?thesis unfolding R nj using True by simp
    next
      case False
      with h(2) have np: "find_job_by_pgid ?n js = None"
        and pid: "getpgid os ?n < 0 \<or> (\<forall>j \<in> set js. pgid j \<noteq> getpgid os ?n)"
        using no_pgid [of ?n] by auto
      have "find_job_by_pid (getpgid os ?n) js = None"
        using pid no_pgid [of "getpgid os ?n"] by (auto simp: find_job_by_pid_def)
      then show ?thesis unfolding R nj np using False by simp
    qed
  qed
  show ?thesis using d1 d2 d3 d4 by blast
qed

lemma wait_resumed_fail:
  "\<forall>w \<in> set pre. keeps_waiting w \<Longrightarrow> e \<noteq> EINTR \<Longrightarrow>
   wait_resumed (pre @ Failed e # later) i s =
     Some (s\<lparr>child_terminated := child_terminated s \<or> notified pre,
            effects := effects s @
              replicate (Suc (length pre)) (Waitpid (- pgid (jobs s ! i)) [WUNTRACED])\<rparr>)"
proof (induction pre arbitrary: s)
  case Nil
  then show ?case by (simp add: emit_conv Let_def)
next
  case (Cons w pre)
  have rest: "\<forall>w \<in> set pre. keeps_waiting w" using Cons.prems by simp
  have w: "keeps_waiting w" using Cons.prems by simp
  let ?s1 = "emit (Waitpid (- pgid (jobs s ! i)) [WUNTRACED]) s"
  show ?case
  proof (cases w)
    case (Failed e')
    with w have e': "e' = EINTR" by (simp add: keeps_waiting_def)
    show ?thesis
      using Cons.IH [OF rest Cons.prems(2), of ?s1]
      by (simp add: Failed e' emit_conv replicate_app_Cons_same notified_Cons Let_def)
  next
    case (Reported q st)
    with w have st: "\<not> (\<exists>k. st = Stopped k)" by (auto simp: keeps_waiting_def)
    have step: "wait_resumed ((w # pre) @ Failed e # later) i s =
        wait_resumed (pre @ Failed e # later) i (child_state_changed st ?s1)"
      using st by (cases st) (simp_all add: Reported Let_def)
    show ?thesis
      unfolding step
      using Cons.IH [OF rest Cons.prems(2), of "child_state_changed st ?s1"]
      by (simp add: Reported emit_conv replicate_app_Cons_same notified_Cons
          child_state_changed_conv disj_assoc)
  qed
qed

lemma wait_resumed_stop:
  "\<forall>w \<in> set pre. keeps_waiting w \<Longrightarrow>
   wait_resumed (pre @ Reported p (Stopped n) # later) i s =
     Some (s\<lparr>jobs := (jobs s)[i := (jobs s ! i)\<lparr>status := STOPPED\<rparr>],
            child_terminated := child_terminated s \<or> notified pre,
            effects := effects s @
              replicate (Suc (length pre)) (Waitpid (- pgid (jobs s ! i)) [WUNTRACED]) @
              [Cout (stopped_notice (jid (jobs s ! i)) (pgid (jobs s ! i)) (cmd (jobs s ! i)))]\<rparr>)"
proof (induction pre arbitrary: s)
  case Nil
  show ?case by (simp add: emit_conv Let_def child_state_changed_conv)
next
  case (Cons w pre)
  have rest: "\<forall>w \<in> set pre. keeps_waiting w" using Cons.prems by simp
  have w: "keeps_waiting w" using Cons.prems by simp
  let ?s1 = "emit (Waitpid (- pgid (jobs s ! i)) [WUNTRACED]) s"
  show ?case
  proof (cases w)
    case (Failed e')
    with w have e': "e' = EINTR" by (simp add: keeps_waiting_def)
    show ?thesis
      using Cons.IH [OF rest, of ?s1]
      by (simp add: Failed e' emit_conv replicate_app_Cons_same notified_Cons Let_def)
  next
    case (Reported q st)
    with w have st: "\<not> (\<exists>k. st = Stopped k)" by (auto simp: keeps_waiting_def)
    have step: "wait_resumed ((w # pre) @ Reported p (Stopped n) # later) i s =
        wait_resumed (pre @ Reported p (Stopped n) # later) i (child_state_changed st ?s1)"
      using st by (cases st) (simp_all add: Reported Let_def)
    show ?thesis
      unfolding step
      using Cons.IH [OF rest, of "child_state_changed st ?s1"]
      by (simp add: Reported emit_conv replicate_app_Cons_same notified_Cons
          child_state_changed_conv disj_assoc)
  qed
qed

lemma send_continue_conv:
  "send_continue os g s = s\<lparr>effects := effects s @ continue_effects os g\<rparr>"
  by (simp add: send_continue_def continue_effects_def emit_conv Let_def)

lemma fg_bg_unresolved:
  "resolve_target os tokens (jobs s) = None \<Longrightarrow>
   fg_bg os tokens s = Some (s\<lparr>effects := effects s @ [Cerr (tokens ! 0 @ '': no such job\<newline>'')]\<rparr>)"
  by (simp add: fg_bg_def emit_def)

lemma bg_resolved:
  "resolve_target os tokens (jobs s) = Some i \<Longrightarrow> tokens ! 0 = ''bg'' \<Longrightarrow>
   fg_bg os tokens s =
     Some (s\<lparr>jobs := (jobs s)[i := (jobs s ! i)\<lparr>status := RUNNING\<rparr>],
            effects := effects s @ continue_effects os (pgid (jobs s ! i)) @
              [Cout (job_tag (jobs s ! i) @ '' Continued in background\<newline>'')]\<rparr>)"
  by (simp add: fg_bg_def Let_def send_continue_conv emit_conv)

lemma by_pgid_or_pid_group_wait [simp]:
  "by_pgid_or_pid (os\<lparr>group_wait := ws\<rparr>) p js = by_pgid_or_pid os p js"
  by (cases "find_job_by_pgid p js") (simp_all add: by_pgid_or_pid_def)

lemma resolve_target_group_wait [simp]:
  "resolve_target (os\<lparr>group_wait := ws\<rparr>) tokens js = resolve_target os tokens js"
  by (simp add: resolve_target_def Let_def cong: if_cong option.case_cong)

lemma continue_effects_group_wait [simp]:
  "continue_effects (os\<lparr>group_wait := ws\<rparr>) g = continue_effects os g"
  by (simp add: continue_effects_def)

lemma fg_resolved_fail:
  assumes "resolve_target os tokens (jobs s) = Some i" and "tokens ! 0 = ''fg''"
    and "\<forall>w \<in> set pre. keeps_waiting w" and "e \<noteq> EINTR"
  shows "fg_bg (os\<lparr>group_wait := pre @ Failed e # later\<rparr>) tokens s =
     Some (s\<lparr>jobs := (if kill_ret os (- pgid (jobs s ! i)) SIGNULL < 0
                      then remove_job_by_pgid (pgid (jobs s ! i)) (jobs s) else jobs s),
            child_terminated := child_terminated s \<or> notified pre,
            effects := effects s @ [Tcsetpgrp (pgid (jobs s ! i))] @
              continue_effects os (pgid (jobs s ! i)) @
              replicate (Suc (length pre)) (Waitpid (- pgid (jobs s ! i)) [WUNTRACED]) @
              [Kill (- pgid (jobs s ! i)) SIGNULL, Tcsetpgrp (shell_pgid s)]\<rparr>)"
proof -
  let ?g = "pgid (jobs s ! i)"
  let ?os = "os\<lparr>group_wait := pre @ Failed e # later\<rparr>"
  let ?s1 = "send_continue ?os ?g (emit (Tcsetpgrp ?g) s)"
  have nb: "tokens ! 0 \<noteq> ''bg''" using assms(2) by simp
  have s1: "?s1 = s\<lparr>effects := effects s @ [Tcsetpgrp ?g] @ continue_effects os ?g\<rparr>"
    by (simp add: send_continue_conv emit_conv)
  have w: "wait_resumed (pre @ Failed e # later) i ?s1 =
      Some (s\<lparr>child_terminated := child_terminated s \<or> notified pre,
            effects := effects s @ [Tcsetpgrp ?g] @ continue_effects os ?g @
              replicate (Suc (length pre)) (Waitpid (- ?g) [WUNTRACED])\<rparr>)"
    unfolding s1 using wait_resumed_fail [OF assms(3,4), of later i
        "s\<lparr>effects := effects s @ [Tcsetpgrp ?g] @ continue_effects os ?g\<rparr>"]
    by simp
  show ?thesis
    using assms(1) nb w by (simp add: fg_bg_def Let_def emit_conv)
qed

lemma fg_resolved_stop:
  assumes "resolve_target os tokens (jobs s) = Some i" and "tokens ! 0 = ''fg''"
    and "\<forall>w \<in> set pre. keeps_waiting w"
  shows "fg_bg (os\<lparr>group_wait := pre @ Reported p (Stopped n) # later\<rparr>) tokens s =
     Some (s\<lparr>jobs := (if kill_ret os (- pgid (jobs s ! i)) SIGNULL < 0
                      then remove_job_by_pgid (pgid (jobs s ! i))
                             ((jobs s)[i := (jobs s ! i)\<lparr>status := STOPPED\<rparr>])
                      else (jobs s)[i := (jobs s ! i)\<lparr>status := STOPPED\<rparr>]),
            child_terminated := child_terminated s \<or> notified pre,
            effects := effects s @ [Tcsetpgrp (pgid (jobs s ! i))] @
              continue_effects os (pgid (jobs s ! i)) @
              replicate (Suc (length pre)) (Waitpid (- pgid (jobs s ! i)) [WUNTRACED]) @
              [Cout (stopped_notice (jid (jobs s ! i)) (pgid (jobs s ! i)) (cmd (jobs s ! i))),
               Kill (- pgid (jobs s ! i)) SIGNULL, Tcsetpgrp (shell_pgid s)]\<rparr>)"
proof -
  let ?g = "pgid (jobs s ! i)"
  let ?os = "os\<lparr>group_wait := pre @ Reported p (Stopped n) # later\<rparr>"
  let ?s1 = "send_continue ?os ?g (emit (Tcsetpgrp ?g) s)"
  have nb: "tokens ! 0 \<noteq> ''bg''" using assms(2) by simp
  have s1: "?s1 = s\<lparr>effects := effects s @ [Tcsetpgrp ?g] @ continue_effects os ?g\<rparr>"
    by (simp add: send_continue_conv emit_conv)
  have w: "wait_resumed (pre @ Reported p (Stopped n) # later) i ?s1 =
      Some (s\<lparr>jobs := (jobs s)[i := (jobs s ! i)\<lparr>status := STOPPED\<rparr>],
            child_terminated := child_terminated s \<or> notified pre,
            effects := effects s @ [Tcsetpgrp ?g] @ continue_effects os ?g @
              replicate (Suc (length pre)) (Waitpid (- ?g) [WUNTRACED]) @
              [Cout (stopped_notice (jid (jobs s ! i)) ?g (cmd (jobs s ! i)))]\<rparr>)"
    unfolding s1 using wait_resumed_stop [OF assms(3), of p n later i
        "s\<lparr>effects := effects s @ [Tcsetpgrp ?g] @ continue_effects os ?g\<rparr>"]
    by simp
  show ?thesis
    using assms(1) nb w by (simp add: fg_bg_def Let_def emit_conv)
qed

text \<open>
  Claim C7. Without an argument the target of \<open>fg\<close> or \<open>bg\<close> is the last entry of the
  table, which has the greatest id when the table is in order: the job registered most
  recently; an empty table has no target. An argument \<open>%n\<close> resolves to the first entry
  with the id \<open>n\<close> when \<open>n\<close> is positive and such an entry exists, and to nothing
  otherwise. An argument of digits only, which \<open>atoi\<close> reads as the number \<open>n\<close>,
  resolves to the first entry with the id \<open>n\<close>; if no entry has that id and \<open>n\<close> is
  not 0, to the first entry with the group \<open>n\<close>; if no entry has that group either, to
  the first entry with the group that \<open>getpgid\<close> returns for \<open>n\<close>, the group of which
  the process \<open>n\<close> is a member; and to nothing in every other case. When no job is
  found, the message \<open>fg: no such job\<close> or \<open>bg: no such job\<close> is written to the error
  stream and the state is otherwise what it was: the same table, no signal sent, no call
  of \<open>tcsetpgrp\<close>; this is also all that the line does in the main loop. When a job is
  found, it is the one that is acted on: \<open>bg\<close> sends \<open>SIGCONT\<close> to its group, sets its
  status to \<open>RUNNING\<close> and prints the line; \<open>fg\<close> hands the terminal to its group,
  sends \<open>SIGCONT\<close>, waits on that group until a member is reported stopped or the wait
  fails with an error other than \<open>EINTR\<close>, probes the group, removes the entries of the
  group when the probe fails, and takes the terminal back.
\<close>

theorem fg_bg_target_resolution:
  "(js \<noteq> [] \<longrightarrow>
      (\<exists>i. resolve_target os [c] js = Some i \<and> i < length js \<and> js ! i = last js)) \<and>
   resolve_target os [c] [] = None \<and>
   (table_ok s \<and> jobs s \<noteq> [] \<longrightarrow> (\<forall>j \<in> set (jobs s). jid j \<le> jid (last (jobs s)))) \<and>
   (0 < atoi ds \<and> (\<exists>j \<in> set js. jid j = atoi ds) \<longrightarrow>
      (\<exists>i. resolve_target os (c # (CHR ''%'' # ds) # others) js = Some i \<and>
         first_with (\<lambda>j. jid j = atoi ds) js i)) \<and>
   (atoi ds \<le> 0 \<or> (\<forall>j \<in> set js. jid j \<noteq> atoi ds) \<longrightarrow>
      resolve_target os (c # (CHR ''%'' # ds) # others) js = None) \<and>
   (all_digits a \<longrightarrow>
      ((\<exists>j \<in> set js. jid j = atoi a) \<longrightarrow>
         (\<exists>i. resolve_target os (c # a # others) js = Some i \<and>
            first_with (\<lambda>j. jid j = atoi a) js i)) \<and>
      ((\<forall>j \<in> set js. jid j \<noteq> atoi a) \<and> atoi a \<noteq> 0 \<and> (\<exists>j \<in> set js. pgid j = atoi a) \<longrightarrow>
         (\<exists>i. resolve_target os (c # a # others) js = Some i \<and>
            first_with (\<lambda>j. pgid j = atoi a) js i)) \<and>
      ((\<forall>j \<in> set js. jid j \<noteq> atoi a \<and> pgid j \<noteq> atoi a) \<and> atoi a \<noteq> 0 \<and>
       0 \<le> getpgid os (atoi a) \<and> (\<exists>j \<in> set js. pgid j = getpgid os (atoi a)) \<longrightarrow>
         (\<exists>i. resolve_target os (c # a # others) js = Some i \<and>
            first_with (\<lambda>j. pgid j = getpgid os (atoi a)) js i)) \<and>
      ((\<forall>j \<in> set js. jid j \<noteq> atoi a) \<and>
       (atoi a = 0 \<or>
        (\<forall>j \<in> set js. pgid j \<noteq> atoi a) \<and>
        (getpgid os (atoi a) < 0 \<or> (\<forall>j \<in> set js. pgid j \<noteq> getpgid os (atoi a)))) \<longrightarrow>
         resolve_target os (c # a # others) js = None)) \<and>
   (resolve_target os tokens (jobs s) = None \<longrightarrow>
      fg_bg os tokens s =
        Some (s\<lparr>effects := effects s @ [Cerr (tokens ! 0 @ '': no such job\<newline>'')]\<rparr>) \<and>
      (tokens \<noteq> [] \<and> (tokens ! 0 = ''fg'' \<or> tokens ! 0 = ''bg'') \<longrightarrow>
         run_line os tokens background input s =
           Some (Continue (s\<lparr>effects := effects s @ [Cerr (tokens ! 0 @ '': no such job\<newline>'')]\<rparr>)))) \<and>
   (resolve_target os tokens (jobs s) = Some i \<and> tokens ! 0 = ''bg'' \<longrightarrow>
      fg_bg os tokens s =
        Some (s\<lparr>jobs := (jobs s)[i := (jobs s ! i)\<lparr>status := RUNNING\<rparr>],
               effects := effects s @ continue_effects os (pgid (jobs s ! i)) @
                 [Cout (job_tag (jobs s ! i) @ '' Continued in background\<newline>'')]\<rparr>)) \<and>
   (resolve_target os tokens (jobs s) = Some i \<and> tokens ! 0 = ''fg'' \<and>
    (\<forall>w \<in> set pre. keeps_waiting w) \<longrightarrow>
      (e \<noteq> EINTR \<longrightarrow>
         fg_bg (os\<lparr>group_wait := pre @ Failed e # later\<rparr>) tokens s =
           Some (s\<lparr>jobs := (if kill_ret os (- pgid (jobs s ! i)) SIGNULL < 0
                            then remove_job_by_pgid (pgid (jobs s ! i)) (jobs s) else jobs s),
                  child_terminated := child_terminated s \<or> notified pre,
                  effects := effects s @ [Tcsetpgrp (pgid (jobs s ! i))] @
                    continue_effects os (pgid (jobs s ! i)) @
                    replicate (Suc (length pre)) (Waitpid (- pgid (jobs s ! i)) [WUNTRACED]) @
                    [Kill (- pgid (jobs s ! i)) SIGNULL, Tcsetpgrp (shell_pgid s)]\<rparr>)) \<and>
      fg_bg (os\<lparr>group_wait := pre @ Reported p (Stopped n) # later\<rparr>) tokens s =
        Some (s\<lparr>jobs := (if kill_ret os (- pgid (jobs s ! i)) SIGNULL < 0
                         then remove_job_by_pgid (pgid (jobs s ! i))
                                ((jobs s)[i := (jobs s ! i)\<lparr>status := STOPPED\<rparr>])
                         else (jobs s)[i := (jobs s ! i)\<lparr>status := STOPPED\<rparr>]),
               child_terminated := child_terminated s \<or> notified pre,
               effects := effects s @ [Tcsetpgrp (pgid (jobs s ! i))] @
                 continue_effects os (pgid (jobs s ! i)) @
                 replicate (Suc (length pre)) (Waitpid (- pgid (jobs s ! i)) [WUNTRACED]) @
                 [Cout (stopped_notice (jid (jobs s ! i)) (pgid (jobs s ! i)) (cmd (jobs s ! i))),
                  Kill (- pgid (jobs s ! i)) SIGNULL, Tcsetpgrp (shell_pgid s)]\<rparr>))"
proof -
  have k1: "js \<noteq> [] \<longrightarrow>
      (\<exists>i. resolve_target os [c] js = Some i \<and> i < length js \<and> js ! i = last js)"
    using resolve_without_argument [of js os c] by blast
  have k2: "resolve_target os [c] [] = None"
    by (simp add: resolve_target_def)
  have k3: "table_ok s \<and> jobs s \<noteq> [] \<longrightarrow> (\<forall>j \<in> set (jobs s). jid j \<le> jid (last (jobs s)))"
    using last_is_greatest [of s] by blast
  have k4: "0 < atoi ds \<and> (\<exists>j \<in> set js. jid j = atoi ds) \<longrightarrow>
      (\<exists>i. resolve_target os (c # (CHR ''%'' # ds) # others) js = Some i \<and>
         first_with (\<lambda>j. jid j = atoi ds) js i)"
  proof (intro impI, elim conjE)
    assume pos: "0 < atoi ds" and ex: "\<exists>j \<in> set js. jid j = atoi ds"
    obtain i where "find_first (\<lambda>j. jid j = atoi ds) js = Some i"
        "first_with (\<lambda>j. jid j = atoi ds) js i"
      using find_first_finds [OF ex] by blast
    then show "\<exists>i. resolve_target os (c # (CHR ''%'' # ds) # others) js = Some i \<and>
         first_with (\<lambda>j. jid j = atoi ds) js i"
      using pos by (simp add: resolve_percent find_job_by_jid_def)
  qed
  have k5: "atoi ds \<le> 0 \<or> (\<forall>j \<in> set js. jid j \<noteq> atoi ds) \<longrightarrow>
      resolve_target os (c # (CHR ''%'' # ds) # others) js = None"
    by (auto simp: resolve_percent find_job_by_jid_def find_first_None)
  note k6 = resolve_digits_cases [of a js os c others]
  have k7: "resolve_target os tokens (jobs s) = None \<longrightarrow>
      fg_bg os tokens s =
        Some (s\<lparr>effects := effects s @ [Cerr (tokens ! 0 @ '': no such job\<newline>'')]\<rparr>) \<and>
      (tokens \<noteq> [] \<and> (tokens ! 0 = ''fg'' \<or> tokens ! 0 = ''bg'') \<longrightarrow>
         run_line os tokens background input s =
           Some (Continue (s\<lparr>effects := effects s @ [Cerr (tokens ! 0 @ '': no such job\<newline>'')]\<rparr>)))"
  proof
    assume h: "resolve_target os tokens (jobs s) = None"
    note f = fg_bg_unresolved [OF h]
    then show "fg_bg os tokens s =
        Some (s\<lparr>effects := effects s @ [Cerr (tokens ! 0 @ '': no such job\<newline>'')]\<rparr>) \<and>
      (tokens \<noteq> [] \<and> (tokens ! 0 = ''fg'' \<or> tokens ! 0 = ''bg'') \<longrightarrow>
         run_line os tokens background input s =
           Some (Continue (s\<lparr>effects := effects s @ [Cerr (tokens ! 0 @ '': no such job\<newline>'')]\<rparr>)))"
      by (auto simp: run_line_def)
  qed
  note k8 = bg_resolved [of os tokens s i]
  note k9 = fg_resolved_fail [of os tokens s i pre e later]
  note k10 = fg_resolved_stop [of os tokens s i pre p n later]
  show ?thesis
    apply (intro conjI)
            apply (rule k1)
           apply (rule k2)
          apply (rule k3)
         apply (rule k4)
        apply (rule k5)
       apply (intro impI, erule k6)
      apply (rule k7)
     apply (intro impI, elim conjE, erule (1) k8)
    apply (intro impI conjI; elim conjE)
     apply (erule (3) k9)
    apply (erule (2) k10)
    done
qed


theorem fg_bg_target_resolution_witness:
  "jobs sample_table \<noteq> [] \<and> table_ok sample_table \<and>
   (\<exists>i. resolve_target sample_os [''fg''] (jobs sample_table) = Some i \<and>
      i < length (jobs sample_table) \<and> jobs sample_table ! i = last (jobs sample_table)) \<and>
   resolve_target sample_os [''fg''] (jobs sample_table) = Some 1 \<and>
   list_all (\<lambda>j. jid j \<le> jid (last (jobs sample_table))) (jobs sample_table) \<and>
   0 < atoi ''1'' \<and> list_ex (\<lambda>j. jid j = atoi ''1'') (jobs sample_table) \<and>
   (\<exists>i. resolve_target sample_os (''fg'' # (CHR ''%'' # ''1'') # []) (jobs sample_table) = Some i \<and>
      first_with (\<lambda>j. jid j = atoi ''1'') (jobs sample_table) i) \<and>
   resolve_target sample_os [''fg'', ''%1''] (jobs sample_table) = Some 0 \<and>
   list_all (\<lambda>j. jid j \<noteq> atoi ''7'') (jobs sample_table) \<and>
   resolve_target sample_os (''fg'' # (CHR ''%'' # ''7'') # []) (jobs sample_table) = None \<and>
   all_digits ''2'' \<and> list_ex (\<lambda>j. jid j = atoi ''2'') (jobs sample_table) \<and>
   (\<exists>i. resolve_target sample_os (''bg'' # ''2'' # []) (jobs sample_table) = Some i \<and>
      first_with (\<lambda>j. jid j = atoi ''2'') (jobs sample_table) i) \<and>
   resolve_target sample_os [''bg'', ''2''] (jobs sample_table) = Some 1 \<and>
   all_digits ''200'' \<and> list_all (\<lambda>j. jid j \<noteq> atoi ''200'') (jobs sample_table) \<and>
   atoi ''200'' \<noteq> 0 \<and> list_ex (\<lambda>j. pgid j = atoi ''200'') (jobs sample_table) \<and>
   (\<exists>i. resolve_target sample_os (''bg'' # ''200'' # []) (jobs sample_table) = Some i \<and>
      first_with (\<lambda>j. pgid j = atoi ''200'') (jobs sample_table) i) \<and>
   resolve_target sample_os [''bg'', ''200''] (jobs sample_table) = Some 1 \<and>
   all_digits ''300'' \<and>
   list_all (\<lambda>j. jid j \<noteq> atoi ''300'' \<and> pgid j \<noteq> atoi ''300'') (jobs sample_table) \<and>
   atoi ''300'' \<noteq> 0 \<and>
   0 \<le> getpgid (sample_os\<lparr>getpgid := (\<lambda>p. if p = 300 then 200 else - 1)\<rparr>) (atoi ''300'') \<and>
   list_ex (\<lambda>j. pgid j = getpgid (sample_os\<lparr>getpgid := (\<lambda>p. if p = 300 then 200 else - 1)\<rparr>)
              (atoi ''300'')) (jobs sample_table) \<and>
   (\<exists>i. resolve_target (sample_os\<lparr>getpgid := (\<lambda>p. if p = 300 then 200 else - 1)\<rparr>)
           (''bg'' # ''300'' # []) (jobs sample_table) = Some i \<and>
      first_with (\<lambda>j. pgid j = getpgid (sample_os\<lparr>getpgid := (\<lambda>p. if p = 300 then 200 else - 1)\<rparr>)
                    (atoi ''300'')) (jobs sample_table) i) \<and>
   resolve_target (sample_os\<lparr>getpgid := (\<lambda>p. if p = 300 then 200 else - 1)\<rparr>)
     [''bg'', ''300''] (jobs sample_table) = Some 1 \<and>
   getpgid sample_os (atoi ''300'') < 0 \<and>
   resolve_target sample_os (''bg'' # ''300'' # []) (jobs sample_table) = None \<and>
   atoi ''4294967297'' = 1 \<and>
   resolve_target sample_os [''bg'', ''4294967297''] (jobs sample_table) = Some 0 \<and>
   resolve_target sample_os [''fg'', ''%7''] (jobs sample_table) = None \<and>
   run_line sample_os [''fg'', ''%7''] False ''fg %7'' sample_table =
     Some (Continue (sample_table\<lparr>effects := effects sample_table @
                       [Cerr ([''fg'', ''%7''] ! 0 @ '': no such job\<newline>'')]\<rparr>)) \<and>
   run_line sample_os [''fg'', ''%7''] False ''fg %7'' sample_table =
     Some (Continue
       \<lparr>jobs = [\<lparr>jid = 1, pgid = 100, cmd = ''a | b'', status = RUNNING\<rparr>,
                \<lparr>jid = 2, pgid = 200, cmd = ''vi'', status = STOPPED\<rparr>],
        next_jid = 3, child_terminated = True, shell_pgid = 50,
        effects = [Cerr ''fg: no such job\<newline>'']\<rparr>) \<and>
   resolve_target sample_os [''bg'', ''%2''] (jobs sample_table) = Some 1 \<and>
   fg_bg sample_os [''bg'', ''%2''] sample_table =
     Some (sample_table\<lparr>jobs := (jobs sample_table)[1 := (jobs sample_table ! 1)\<lparr>status := RUNNING\<rparr>],
             effects := effects sample_table @ continue_effects sample_os (pgid (jobs sample_table ! 1)) @
               [Cout (job_tag (jobs sample_table ! 1) @ '' Continued in background\<newline>'')]\<rparr>) \<and>
   fg_bg sample_os [''bg'', ''%2''] sample_table =
     Some \<lparr>jobs = [\<lparr>jid = 1, pgid = 100, cmd = ''a | b'', status = RUNNING\<rparr>,
                   \<lparr>jid = 2, pgid = 200, cmd = ''vi'', status = RUNNING\<rparr>],
           next_jid = 3, child_terminated = True, shell_pgid = 50,
           effects = [Kill (- 200) SIGCONT, Cout ''[2] 200 Continued in background\<newline>'']\<rparr> \<and>
   resolve_target (sample_os\<lparr>kill_ret := (\<lambda>p sg. if sg = SIGNULL then - 1 else 0)\<rparr>)
     [''fg'', ''%2''] (jobs sample_table) = Some 1 \<and>
   keeps_waiting (Reported 200 (Exited 0)) \<and> ECHILD \<noteq> EINTR \<and>
   fg_bg (sample_os\<lparr>kill_ret := (\<lambda>p sg. if sg = SIGNULL then - 1 else 0),
                     group_wait := [Reported 200 (Exited 0)] @ Failed ECHILD # []\<rparr>)
       [''fg'', ''%2''] sample_table =
     Some \<lparr>jobs = [\<lparr>jid = 1, pgid = 100, cmd = ''a | b'', status = RUNNING\<rparr>],
           next_jid = 3, child_terminated = True, shell_pgid = 50,
           effects = [Tcsetpgrp 200, Kill (- 200) SIGCONT, Waitpid (- 200) [WUNTRACED],
                      Waitpid (- 200) [WUNTRACED], Kill (- 200) SIGNULL, Tcsetpgrp 50]\<rparr> \<and>
   resolve_target sample_os [''fg'', ''%1''] (jobs sample_table) = Some 0 \<and>
   fg_bg (sample_os\<lparr>group_wait := [] @ Reported 101 (Stopped 20) # []\<rparr>)
       [''fg'', ''%1''] sample_table =
     Some \<lparr>jobs = [\<lparr>jid = 1, pgid = 100, cmd = ''a | b'', status = STOPPED\<rparr>,
                   \<lparr>jid = 2, pgid = 200, cmd = ''vi'', status = STOPPED\<rparr>],
           next_jid = 3, child_terminated = True, shell_pgid = 50,
           effects = [Tcsetpgrp 100, Kill (- 100) SIGCONT, Waitpid (- 100) [WUNTRACED],
                      Cout ''\<newline>[1] 100 Stopped    a | b\<newline>'',
                      Kill (- 100) SIGNULL, Tcsetpgrp 50]\<rparr>"
proof -
  let ?js = "jobs sample_table"
  let ?gp = "sample_os\<lparr>getpgid := (\<lambda>p. if p = 300 then 200 else - 1)\<rparr>"
  let ?kr = "sample_os\<lparr>kill_ret := (\<lambda>p sg. if sg = SIGNULL then - 1 else 0)\<rparr>"
  have js: "?js = [\<lparr>jid = 1, pgid = 100, cmd = ''a | b'', status = RUNNING\<rparr>,
                   \<lparr>jid = 2, pgid = 200, cmd = ''vi'', status = STOPPED\<rparr>]"
    by (simp add: sample_table_def)
  have at: "atoi ''1'' = 1" "atoi ''2'' = 2" "atoi ''7'' = 7" "atoi ''200'' = 200"
      "atoi ''300'' = 300" "atoi ''4294967297'' = 1"
    by code_simp+
  have gp: "getpgid ?gp 300 = 200" "getpgid sample_os 300 = - 1"
    by (simp_all add: sample_os_def)
  have dg: "all_digits ''2''" "all_digits ''200''" "all_digits ''300''"
    by (simp_all add: all_digits_def is_digit_def)

  note A = fg_bg_target_resolution [where os = sample_os and c = "''fg''" and js = ?js
      and s = sample_table and ds = "''1''" and others = "[]" and a = "''2''"
      and tokens = "[''fg'', ''%7'']" and background = False and input = "''fg %7''"]
  note A2 = A [THEN conjunct2]
  note A3 = A2 [THEN conjunct2]
  note A4 = A3 [THEN conjunct2]
  note A5 = A4 [THEN conjunct2]
  note A6 = A5 [THEN conjunct2]
  have w1: "?js \<noteq> []" by (simp add: js)
  have w2: "table_ok sample_table" by (simp add: table_ok_def sample_table_def)
  have w3: "\<exists>i. resolve_target sample_os [''fg''] ?js = Some i \<and> i < length ?js \<and> ?js ! i = last ?js"
    by (rule mp [OF A [THEN conjunct1] w1])
  have w4: "resolve_target sample_os [''fg''] ?js = Some 1" by code_simp
  have "\<forall>j \<in> set ?js. jid j \<le> jid (last ?js)"
    by (rule mp [OF A3 [THEN conjunct1] conjI [OF w2 w1]])
  then have w5: "list_all (\<lambda>j. jid j \<le> jid (last ?js)) ?js"
    by (simp only: list_all_iff)
  have w6: "0 < atoi ''1''" by (simp add: at)
  have w7: "list_ex (\<lambda>j. jid j = atoi ''1'') ?js" by (simp add: at js)
  have w7': "\<exists>j \<in> set ?js. jid j = atoi ''1''" using w7 by (simp only: list_ex_iff)
  have w8: "\<exists>i. resolve_target sample_os (''fg'' # (CHR ''%'' # ''1'') # []) ?js = Some i \<and>
      first_with (\<lambda>j. jid j = atoi ''1'') ?js i"
    by (rule mp [OF A4 [THEN conjunct1] conjI [OF w6 w7']])
  have w9: "resolve_target sample_os [''fg'', ''%1''] ?js = Some 0" by code_simp

  note B = fg_bg_target_resolution [where os = sample_os and c = "''fg''" and js = ?js
      and ds = "''7''" and others = "[]"]
  have w10: "list_all (\<lambda>j. jid j \<noteq> atoi ''7'') ?js" by (simp add: at js)
  have w10': "\<forall>j \<in> set ?js. jid j \<noteq> atoi ''7''" using w10 by (simp only: list_all_iff)
  have w11: "resolve_target sample_os (''fg'' # (CHR ''%'' # ''7'') # []) ?js = None"
    by (rule mp [OF B [THEN conjunct2, THEN conjunct2, THEN conjunct2, THEN conjunct2,
            THEN conjunct1] disjI2 [OF w10']])

  note D1 = fg_bg_target_resolution [where os = sample_os and c = "''bg''" and js = ?js
      and a = "''2''" and others = "[]", THEN conjunct2, THEN conjunct2, THEN conjunct2,
      THEN conjunct2, THEN conjunct2, THEN conjunct1, THEN mp, OF dg(1)]
  have w12: "list_ex (\<lambda>j. jid j = atoi ''2'') ?js" by (simp add: at js)
  have w12': "\<exists>j \<in> set ?js. jid j = atoi ''2''" using w12 by (simp only: list_ex_iff)
  have w13: "\<exists>i. resolve_target sample_os (''bg'' # ''2'' # []) ?js = Some i \<and>
      first_with (\<lambda>j. jid j = atoi ''2'') ?js i"
    by (rule mp [OF D1 [THEN conjunct1] w12'])
  have w14: "resolve_target sample_os [''bg'', ''2''] ?js = Some 1" by code_simp

  note D2 = fg_bg_target_resolution [where os = sample_os and c = "''bg''" and js = ?js
      and a = "''200''" and others = "[]", THEN conjunct2, THEN conjunct2, THEN conjunct2,
      THEN conjunct2, THEN conjunct2, THEN conjunct1, THEN mp, OF dg(2)]
  have w15: "list_all (\<lambda>j. jid j \<noteq> atoi ''200'') ?js" by (simp add: at js)
  have w15': "\<forall>j \<in> set ?js. jid j \<noteq> atoi ''200''" using w15 by (simp only: list_all_iff)
  have w16: "atoi ''200'' \<noteq> 0" by (simp add: at)
  have w17: "list_ex (\<lambda>j. pgid j = atoi ''200'') ?js" by (simp add: at js)
  have w17': "\<exists>j \<in> set ?js. pgid j = atoi ''200''" using w17 by (simp only: list_ex_iff)
  have w18: "\<exists>i. resolve_target sample_os (''bg'' # ''200'' # []) ?js = Some i \<and>
      first_with (\<lambda>j. pgid j = atoi ''200'') ?js i"
    by (rule mp [OF D2 [THEN conjunct2, THEN conjunct1] conjI [OF w15' conjI [OF w16 w17']]])
  have w19: "resolve_target sample_os [''bg'', ''200''] ?js = Some 1" by code_simp

  note D3 = fg_bg_target_resolution [where os = ?gp and c = "''bg''" and js = ?js
      and a = "''300''" and others = "[]", THEN conjunct2, THEN conjunct2, THEN conjunct2,
      THEN conjunct2, THEN conjunct2, THEN conjunct1, THEN mp, OF dg(3)]
  have w20: "list_all (\<lambda>j. jid j \<noteq> atoi ''300'' \<and> pgid j \<noteq> atoi ''300'') ?js"
    by (simp add: at js)
  have w20': "\<forall>j \<in> set ?js. jid j \<noteq> atoi ''300'' \<and> pgid j \<noteq> atoi ''300''"
    using w20 by (simp only: list_all_iff)
  have w21: "atoi ''300'' \<noteq> 0" by (simp add: at)
  have w22: "0 \<le> getpgid ?gp (atoi ''300'')" by (simp add: at)
  have w23: "list_ex (\<lambda>j. pgid j = getpgid ?gp (atoi ''300'')) ?js" by (simp add: at js)
  have w23': "\<exists>j \<in> set ?js. pgid j = getpgid ?gp (atoi ''300'')"
    using w23 by (simp only: list_ex_iff)
  have w24: "\<exists>i. resolve_target ?gp (''bg'' # ''300'' # []) ?js = Some i \<and>
      first_with (\<lambda>j. pgid j = getpgid ?gp (atoi ''300'')) ?js i"
    by (rule mp [OF D3 [THEN conjunct2, THEN conjunct2, THEN conjunct1]
          conjI [OF w20' conjI [OF w21 conjI [OF w22 w23']]]])
  have w25: "resolve_target ?gp [''bg'', ''300''] ?js = Some 1" by code_simp

  note D4 = fg_bg_target_resolution [where os = sample_os and c = "''bg''" and js = ?js
      and a = "''300''" and others = "[]", THEN conjunct2, THEN conjunct2, THEN conjunct2,
      THEN conjunct2, THEN conjunct2, THEN conjunct1, THEN mp, OF dg(3)]
  have w26: "getpgid sample_os (atoi ''300'') < 0" by (simp add: at gp)
  have nj: "\<forall>j \<in> set ?js. jid j \<noteq> atoi ''300''" and np: "\<forall>j \<in> set ?js. pgid j \<noteq> atoi ''300''"
    using w20' by simp_all
  have w27: "resolve_target sample_os (''bg'' # ''300'' # []) ?js = None"
    by (rule mp [OF D4 [THEN conjunct2, THEN conjunct2, THEN conjunct2]
          conjI [OF nj disjI2 [OF conjI [OF np disjI1 [OF w26]]]]])
  have w28: "atoi ''4294967297'' = 1" by (rule at)
  have w29: "resolve_target sample_os [''bg'', ''4294967297''] ?js = Some 0" by code_simp

  have w30: "resolve_target sample_os [''fg'', ''%7''] ?js = None" by code_simp
  have tk: "[''fg'', ''%7''] \<noteq> [] \<and> ([''fg'', ''%7''] ! 0 = ''fg'' \<or> [''fg'', ''%7''] ! 0 = ''bg'')"
    by simp
  have w31: "run_line sample_os [''fg'', ''%7''] False ''fg %7'' sample_table =
     Some (Continue (sample_table\<lparr>effects := effects sample_table @
                       [Cerr ([''fg'', ''%7''] ! 0 @ '': no such job\<newline>'')]\<rparr>))"
    by (rule mp [OF mp [OF A6 [THEN conjunct2, THEN conjunct1] w30, THEN conjunct2] tk])
  have w32: "run_line sample_os [''fg'', ''%7''] False ''fg %7'' sample_table =
     Some (Continue
       \<lparr>jobs = [\<lparr>jid = 1, pgid = 100, cmd = ''a | b'', status = RUNNING\<rparr>,
                \<lparr>jid = 2, pgid = 200, cmd = ''vi'', status = STOPPED\<rparr>],
        next_jid = 3, child_terminated = True, shell_pgid = 50,
        effects = [Cerr ''fg: no such job\<newline>'']\<rparr>)"
    by code_simp

  note E = fg_bg_target_resolution [where os = sample_os and s = sample_table
      and tokens = "[''bg'', ''%2'']" and i = 1, THEN conjunct2, THEN conjunct2, THEN conjunct2,
      THEN conjunct2, THEN conjunct2, THEN conjunct2, THEN conjunct2, THEN conjunct1]
  have w33: "resolve_target sample_os [''bg'', ''%2''] ?js = Some 1" by code_simp
  have bg: "[''bg'', ''%2''] ! 0 = ''bg''" by simp
  have w34: "fg_bg sample_os [''bg'', ''%2''] sample_table =
     Some (sample_table\<lparr>jobs := (jobs sample_table)[1 := (jobs sample_table ! 1)\<lparr>status := RUNNING\<rparr>],
             effects := effects sample_table @ continue_effects sample_os (pgid (jobs sample_table ! 1)) @
               [Cout (job_tag (jobs sample_table ! 1) @ '' Continued in background\<newline>'')]\<rparr>)"
    by (rule mp [OF E conjI [OF w33 bg]])
  have w35: "fg_bg sample_os [''bg'', ''%2''] sample_table =
     Some \<lparr>jobs = [\<lparr>jid = 1, pgid = 100, cmd = ''a | b'', status = RUNNING\<rparr>,
                   \<lparr>jid = 2, pgid = 200, cmd = ''vi'', status = RUNNING\<rparr>],
           next_jid = 3, child_terminated = True, shell_pgid = 50,
           effects = [Kill (- 200) SIGCONT, Cout ''[2] 200 Continued in background\<newline>'']\<rparr>"
    by code_simp

  note F = fg_bg_target_resolution [where os = ?kr and s = sample_table
      and tokens = "[''fg'', ''%2'']" and i = 1 and pre = "[Reported 200 (Exited 0)]"
      and e = ECHILD and later = "[]",
      THEN conjunct2, THEN conjunct2, THEN conjunct2,
      THEN conjunct2, THEN conjunct2, THEN conjunct2, THEN conjunct2, THEN conjunct2]
  have w36: "resolve_target ?kr [''fg'', ''%2''] ?js = Some 1" by code_simp
  have fg: "[''fg'', ''%2''] ! 0 = ''fg''" by simp
  have w37: "keeps_waiting (Reported 200 (Exited 0))" by (simp add: keeps_waiting_def)
  have w37': "\<forall>w \<in> set [Reported 200 (Exited 0)]. keeps_waiting w" using w37 by simp
  have w38: "ECHILD \<noteq> EINTR" by simp
  note F' = mp [OF F conjI [OF w36 conjI [OF fg w37']]]
  have ev1: "Some (sample_table\<lparr>jobs := (if kill_ret ?kr (- pgid (?js ! 1)) SIGNULL < 0
                            then remove_job_by_pgid (pgid (?js ! 1)) ?js else ?js),
                  child_terminated := child_terminated sample_table \<or> notified [Reported 200 (Exited 0)],
                  effects := effects sample_table @ [Tcsetpgrp (pgid (?js ! 1))] @
                    continue_effects ?kr (pgid (?js ! 1)) @
                    replicate (Suc (length [Reported 200 (Exited 0)])) (Waitpid (- pgid (?js ! 1)) [WUNTRACED]) @
                    [Kill (- pgid (?js ! 1)) SIGNULL, Tcsetpgrp (shell_pgid sample_table)]\<rparr>) =
     Some \<lparr>jobs = [\<lparr>jid = 1, pgid = 100, cmd = ''a | b'', status = RUNNING\<rparr>],
           next_jid = 3, child_terminated = True, shell_pgid = 50,
           effects = [Tcsetpgrp 200, Kill (- 200) SIGCONT, Waitpid (- 200) [WUNTRACED],
                      Waitpid (- 200) [WUNTRACED], Kill (- 200) SIGNULL, Tcsetpgrp 50]\<rparr>"
    by code_simp
  have w39: "fg_bg (sample_os\<lparr>kill_ret := (\<lambda>p sg. if sg = SIGNULL then - 1 else 0),
                     group_wait := [Reported 200 (Exited 0)] @ Failed ECHILD # []\<rparr>)
       [''fg'', ''%2''] sample_table =
     Some \<lparr>jobs = [\<lparr>jid = 1, pgid = 100, cmd = ''a | b'', status = RUNNING\<rparr>],
           next_jid = 3, child_terminated = True, shell_pgid = 50,
           effects = [Tcsetpgrp 200, Kill (- 200) SIGCONT, Waitpid (- 200) [WUNTRACED],
                      Waitpid (- 200) [WUNTRACED], Kill (- 200) SIGNULL, Tcsetpgrp 50]\<rparr>"
    using mp [OF F' [THEN conjunct1] w38] unfolding ev1 .
  note G = fg_bg_target_resolution [where os = sample_os and s = sample_table
      and tokens = "[''fg'', ''%1'']" and i = 0 and pre = "[]"
      and later = "[]" and p = 101 and n = 20,
      THEN conjunct2, THEN conjunct2, THEN conjunct2,
      THEN conjunct2, THEN conjunct2, THEN conjunct2, THEN conjunct2, THEN conjunct2]
  have w40: "resolve_target sample_os [''fg'', ''%1''] ?js = Some 0" by code_simp
  have fg1: "[''fg'', ''%1''] ! 0 = ''fg''" by simp
  have none: "\<forall>w \<in> set []. keeps_waiting w" by simp
  have ev2: "Some (sample_table\<lparr>jobs := (if kill_ret sample_os (- pgid (?js ! 0)) SIGNULL < 0
                         then remove_job_by_pgid (pgid (?js ! 0))
                                (?js[0 := (?js ! 0)\<lparr>status := STOPPED\<rparr>])
                         else ?js[0 := (?js ! 0)\<lparr>status := STOPPED\<rparr>]),
               child_terminated := child_terminated sample_table \<or> notified [],
               effects := effects sample_table @ [Tcsetpgrp (pgid (?js ! 0))] @
                 continue_effects sample_os (pgid (?js ! 0)) @
                 replicate (Suc (length ([] :: wait_result list))) (Waitpid (- pgid (?js ! 0)) [WUNTRACED]) @
                 [Cout (stopped_notice (jid (?js ! 0)) (pgid (?js ! 0)) (cmd (?js ! 0))),
                  Kill (- pgid (?js ! 0)) SIGNULL, Tcsetpgrp (shell_pgid sample_table)]\<rparr>) =
     Some \<lparr>jobs = [\<lparr>jid = 1, pgid = 100, cmd = ''a | b'', status = STOPPED\<rparr>,
                   \<lparr>jid = 2, pgid = 200, cmd = ''vi'', status = STOPPED\<rparr>],
           next_jid = 3, child_terminated = True, shell_pgid = 50,
           effects = [Tcsetpgrp 100, Kill (- 100) SIGCONT, Waitpid (- 100) [WUNTRACED],
                      Cout ''\<newline>[1] 100 Stopped    a | b\<newline>'',
                      Kill (- 100) SIGNULL, Tcsetpgrp 50]\<rparr>"
    by code_simp
  have w41: "fg_bg (sample_os\<lparr>group_wait := [] @ Reported 101 (Stopped 20) # []\<rparr>)
       [''fg'', ''%1''] sample_table =
     Some \<lparr>jobs = [\<lparr>jid = 1, pgid = 100, cmd = ''a | b'', status = STOPPED\<rparr>,
                   \<lparr>jid = 2, pgid = 200, cmd = ''vi'', status = STOPPED\<rparr>],
           next_jid = 3, child_terminated = True, shell_pgid = 50,
           effects = [Tcsetpgrp 100, Kill (- 100) SIGCONT, Waitpid (- 100) [WUNTRACED],
                      Cout ''\<newline>[1] 100 Stopped    a | b\<newline>'',
                      Kill (- 100) SIGNULL, Tcsetpgrp 50]\<rparr>"
    using mp [OF G conjI [OF w40 conjI [OF fg1 none]], THEN conjunct2] unfolding ev2 .
  show ?thesis
    by (intro conjI)
      (rule w1 w2 w3 w4 w5 w6 w7 w8 w9 w10 w11 dg w12 w13 w14 w15 w16 w17 w18 w19 w20 w21 w22 w23
        w24 w25 w26 w27 w28 w29 w30 w31 w32 w33 w34 w35 w36 w37 w38 w39 w40 w41)+
qed

text \<open>
  Claim C5 at lines that start with a builtin name and contain a pipe token. The main
  loop tests the first token at lines 390-402, before the pipeline is built, so the rest
  of such a line is ignored: \<open>jobs | wc -l\<close> prints the table inside the shell exactly
  as \<open>jobs\<close> does and starts no process, \<open>cd /tmp | cat\<close> changes the directory of the
  shell, \<open>exit | cat\<close> ends the shell, and \<open>fg | cat\<close> is run as \<open>fg\<close> with the argument
  \<open>|\<close>. The command builder does see two stages in these lines, and the guard of
  \<open>runPipeline\<close> (one stage, not in the background; ``only when not part of a
  pipeline'') would not treat them as builtins.
\<close>

theorem builtin_name_before_pipe_is_builtin:
  "parseInput ''jobs | wc -l'' = [''jobs'', ''|'', ''wc'', ''-l''] \<and>
   buildCommands [''jobs'', ''|'', ''wc'', ''-l''] =
     [sample_stage [''jobs''], sample_stage [''wc'', ''-l'']] \<and>
   main_iter sample_os (Some ''jobs | wc -l'') (sample_table\<lparr>child_terminated := False\<rparr>) =
     Some (Continue
       \<lparr>jobs = [\<lparr>jid = 1, pgid = 100, cmd = ''a | b'', status = RUNNING\<rparr>,
                \<lparr>jid = 2, pgid = 200, cmd = ''vi'', status = STOPPED\<rparr>],
        next_jid = 3, child_terminated = False, shell_pgid = 50,
        effects = [Cout ''myshell> '', Cout ''[1] 100 Running    a | b\<newline>'',
                   Cout ''[2] 200 Stopped    vi\<newline>'']\<rparr>) \<and>
   main_iter sample_os (Some ''jobs | wc -l'') (sample_table\<lparr>child_terminated := False\<rparr>) =
     main_iter sample_os (Some ''jobs'') (sample_table\<lparr>child_terminated := False\<rparr>) \<and>
   main_iter sample_os (Some ''cd /tmp | cat'') (main_init 50) =
     Some (Continue
       \<lparr>jobs = [], next_jid = 1, child_terminated = False, shell_pgid = 50,
        effects = [Setpgid 50 50, Tcsetpgrp 50, Tcgetattr, Cout ''myshell> '',
                   Chdir ''/tmp'']\<rparr>) \<and>
   main_iter sample_os (Some ''exit | cat'') (main_init 50) =
     Some (Finish 0
       \<lparr>jobs = [], next_jid = 1, child_terminated = False, shell_pgid = 50,
        effects = [Setpgid 50 50, Tcsetpgrp 50, Tcgetattr, Cout ''myshell> '']\<rparr>) \<and>
   main_iter sample_os (Some ''fg | cat'') (sample_table\<lparr>child_terminated := False\<rparr>) =
     Some (Continue
       \<lparr>jobs = [\<lparr>jid = 1, pgid = 100, cmd = ''a | b'', status = RUNNING\<rparr>,
                \<lparr>jid = 2, pgid = 200, cmd = ''vi'', status = STOPPED\<rparr>],
        next_jid = 3, child_terminated = False, shell_pgid = 50,
        effects = [Cout ''myshell> '', Cerr ''fg: no such job\<newline>'']\<rparr>)"
  by code_simp

lemma run_line_first_token:
  "run_line os (''jobs'' # rest) background input s = Some (Continue (print_jobs s))"
  "run_line os (''cd'' # rest) background input s =
     Some (Continue (change_directory os (''cd'' # rest) s))"
  "run_line os (''exit'' # rest) background input s = Some (Finish 0 s)"
  by (simp_all add: run_line_def)

section \<open>The single reports of a draining pass\<close>

text \<open>
  What the body of the loop of \<open>update_jobs\<close> does once the lookup of the reported
  child has been made: without an entry the report is skipped in silence; with an entry
  a stop or a continue sets the status and prints a line, and an exit or a termination
  prints the done line and removes the entries of the group. The pass ends with the flag
  cleared.
\<close>

lemma handle_reaped_no_entry:
  "find_job_by_pid pg (jobs s) = None \<Longrightarrow> handle_reaped st pg s = s"
  by (simp add: handle_reaped_def)

lemma handle_reaped_stopped:
  "find_job_by_pid pg (jobs s) = Some i \<Longrightarrow>
   handle_reaped (Stopped n) pg s =
     s\<lparr>jobs := (jobs s)[i := (jobs s ! i)\<lparr>status := STOPPED\<rparr>],
       effects := effects s @
         [Cout (''\<newline>'' @ job_tag (jobs s ! i) @ '' Stopped    '' @ cmd (jobs s ! i) @ ''\<newline>'')]\<rparr>"
  by (simp add: handle_reaped_def Let_def emit_def)

lemma handle_reaped_continued:
  "find_job_by_pid pg (jobs s) = Some i \<Longrightarrow>
   handle_reaped Continued pg s =
     s\<lparr>jobs := (jobs s)[i := (jobs s ! i)\<lparr>status := RUNNING\<rparr>],
       effects := effects s @
         [Cout (''\<newline>'' @ job_tag (jobs s ! i) @ '' Continued    '' @ cmd (jobs s ! i) @ ''\<newline>'')]\<rparr>"
  by (simp add: handle_reaped_def Let_def emit_def)

lemma handle_reaped_exit:
  "find_job_by_pid pg (jobs s) = Some i \<Longrightarrow> is_exit st \<Longrightarrow>
   handle_reaped st pg s =
     s\<lparr>jobs := remove_job_by_pgid (pgid (jobs s ! i)) (jobs s),
       effects := effects s @
         [Cout (''\<newline>'' @ job_tag (jobs s ! i) @ '' Done    '' @ cmd (jobs s ! i) @ ''\<newline>'')]\<rparr>"
  by (cases st) (simp_all add: handle_reaped_def Let_def emit_def is_exit_def)

lemma find_job_by_pid_failed: "pg < 0 \<Longrightarrow> find_job_by_pid pg js = None"
  by (simp add: find_job_by_pid_def)

lemma update_jobs_clears_flag: "update_jobs answers s = Some s' \<Longrightarrow> \<not> child_terminated s'"
  by (auto simp: update_jobs_def)

end
